theory Spec2Isabelle
  imports Main "HOL-Library.Monad_Syntax" "HOL-Library.Sublist"
begin

section \<open>Data model of the window manager (interface/Window.cpp)\<close>

text \<open>
  The structures \<^verbatim>\<open>rct_window\<close>, \<^verbatim>\<open>rct_viewport\<close>, \<^verbatim>\<open>rct_widget\<close>, \<^verbatim>\<open>rct_scroll\<close> and
  \<^verbatim>\<open>rct_drawpixelinfo\<close> are declared in headers that are not part of the excerpt.
  Modelled from the spec: the fields Window.cpp reads and writes, with the geometry as
  integers (section 3, "integer x, y, width, height") and the flags as a bitset, written as
  the set of the flag bits that are set. Fields are prefixed with the structure they belong to.
  Window.cpp handles the positions and extents of windows and viewports as \<^verbatim>\<open>sint16\<close> (its
  locals, casts and clamps); \<^verbatim>\<open>window_move_position\<close>, \<^verbatim>\<open>window_bring_to_front\<close> and
  \<^verbatim>\<open>window_zoom_set\<close> convert what they store into these fields with \<open>s16\<close>.
  A pointer to a window is its index in the window list, \<^verbatim>\<open>nullptr\<close> is \<open>None\<close>; a pointer to a
  viewport is an address in the viewport store.
\<close>

datatype widget_type = WWT_EMPTY | WWT_LAST | WWT_DROPDOWN | WWT_SCROLL | WWT_OTHER nat

datatype window_flag =
    WF_STICK_TO_BACK | WF_STICK_TO_FRONT | WF_NO_SCROLLING | WF_SCROLLING_TO_LOCATION
  | WF_TRANSPARENT | WF_NO_BACKGROUND | WF_RESIZABLE | WF_NO_AUTO_CLOSE

datatype scroll_flag = HSCROLLBAR_VISIBLE | VSCROLLBAR_VISIBLE

datatype rct_windowclass = WC_MAIN_WINDOW | WC_DROPDOWN | WC_OPTIONS | WC_OTHER nat

datatype visibility_cache = VC_UNKNOWN | VC_VISIBLE | VC_COVERED

record rct_widget =
  wid_type :: widget_type
  wid_left :: int
  wid_right :: int
  wid_top :: int
  wid_bottom :: int

record rct_scroll =
  scr_flags :: "scroll_flag set"
  scr_h_left :: int
  scr_h_right :: int
  scr_h_thumb_left :: int
  scr_h_thumb_right :: int
  scr_v_top :: int
  scr_v_bottom :: int
  scr_v_thumb_top :: int
  scr_v_thumb_bottom :: int

record rct_viewport =
  vp_width :: int
  vp_height :: int
  vp_x :: int
  vp_y :: int
  vp_view_x :: int
  vp_view_y :: int
  vp_view_width :: int
  vp_view_height :: int
  vp_flags_bit0 :: bool
  vp_zoom :: int
  vp_visibility :: visibility_cache

record rct_window =
  win_event_handlers :: nat
  win_viewport :: "nat option"
  win_widgets :: "rct_widget list"
  win_x :: int
  win_y :: int
  win_width :: int
  win_height :: int
  win_number :: nat
  win_flags :: "window_flag set"
  win_scrolls :: "rct_scroll list"
  win_saved_view_x :: int
  win_saved_view_y :: int
  win_classification :: rct_windowclass
  win_viewport_target_sprite :: "nat option"
  win_viewport_smart_follow_sprite :: "nat option"
  win_visibility :: visibility_cache

text \<open>
  The global state: \<open>window_list\<close> is \<^verbatim>\<open>g_window_list\<close> from its first entry up to
  \<^verbatim>\<open>gWindowNextSlot\<close> (back-most window first); \<open>viewport_store\<close> holds the viewports the
  windows point to; \<open>dirty_blocks\<close> records the calls of \<^verbatim>\<open>gfx_set_dirty_blocks\<close>, the
  drawing layer's entry point for invalidation; \<open>window_limit\<close> is
  \<^verbatim>\<open>gConfigGeneral.window_limit\<close>; \<open>next_slot_null\<close> says that \<^verbatim>\<open>gWindowNextSlot\<close> is still
  \<^verbatim>\<open>nullptr\<close> (before \<^verbatim>\<open>window_init_all\<close>). \<open>spare_slots\<close> is what the slots of \<^verbatim>\<open>g_window_list\<close>
  at and after \<^verbatim>\<open>gWindowNextSlot\<close> hold, by slot number: closing a window moves the later
  entries down and leaves the slot the list gives up as it was, so a pointer past the list
  reads what an earlier close left there. The size of the array is not in the excerpt; the
  slot number is not bounded here.
\<close>

record state =
  window_list :: "rct_window list"
  viewport_store :: "nat \<Rightarrow> rct_viewport"
  dirty_blocks :: "(int \<times> int \<times> int \<times> int) list"
  window_limit :: int
  next_slot_null :: bool
  spare_slots :: "nat \<Rightarrow> rct_window"

record rct_drawpixelinfo =
  dpi_bits :: int
  dpi_x :: int
  dpi_y :: int
  dpi_width :: int
  dpi_height :: int
  dpi_pitch :: int
  dpi_zoom_level :: int

text \<open>
  The event handlers of a window are C function pointers in the table \<^verbatim>\<open>w->event_handlers\<close>;
  a handler receives the window pointer and may change any part of the global state. A table
  is a record of optional state transformers (\<open>None\<close> is the null handler), and the window
  holds the address of its table.
\<close>

record 's rct_window_event_list =
  ev_close :: "(nat \<Rightarrow> 's \<Rightarrow> 's) option"
  ev_invalidate :: "(nat \<Rightarrow> 's \<Rightarrow> 's) option"
  ev_paint :: "(nat \<Rightarrow> rct_drawpixelinfo \<Rightarrow> 's \<Rightarrow> 's) option"

text \<open>
  What Window.cpp takes from outside: the handler tables, the constants of Window.h and
  Viewport.h (their values are not in the excerpt, so they are parameters), configuration
  and screen-mode globals, and the map and cursor collaborators.
\<close>

record env =
  handlers :: "nat \<Rightarrow> state rct_window_event_list"
  WINDOW_LIMIT_MIN :: int
  WINDOW_LIMIT_MAX :: int
  WINDOW_LIMIT_RESERVED :: int
  MAX_ZOOM_LEVEL :: int
  SCREEN_FLAGS_TITLE_DEMO :: bool
  SCREEN_FLAGS_SCENARIO_EDITOR :: bool
  editor_step_is_landscape_editor :: bool
  zoom_to_cursor :: bool
  get_current_rotation :: int
  tile_element_height :: "int \<Rightarrow> int \<Rightarrow> int"
  coordinate_3d_to_2d :: "int \<times> int \<times> int \<Rightarrow> int \<Rightarrow> int \<times> int"
  cursor_position_scaled :: "int \<times> int"
  get_map_coordinates_from_pos :: "int \<Rightarrow> int \<Rightarrow> int \<times> int"
  centre_2d_coordinates :: "int \<Rightarrow> int \<Rightarrow> int \<Rightarrow> rct_viewport \<Rightarrow> int \<times> int"
  thumb_lround :: "int \<Rightarrow> int \<Rightarrow> int \<Rightarrow> int \<times> int"

subsection \<open>C arithmetic\<close>

text \<open>Conversion to \<^verbatim>\<open>sint16\<close>, and C's integer division, which truncates towards zero.\<close>

definition s16 :: "int \<Rightarrow> int" where
  "s16 n = (n + 32768) mod 65536 - 32768"

definition cdiv :: "int \<Rightarrow> int \<Rightarrow> int" where
  "cdiv a b = sgn a * sgn b * (\<bar>a\<bar> div \<bar>b\<bar>)"

text \<open>Modelled from the spec: \<^verbatim>\<open>Math::Clamp(low, x, high)\<close> of core/Math.hpp, which is not in
  the excerpt ("clamps to [min, max]").\<close>

definition Clamp :: "int \<Rightarrow> int \<Rightarrow> int \<Rightarrow> int" where
  "Clamp low x high = min (max low x) high"

subsection \<open>Pointers into the window list\<close>

text \<open>
  Reading through a window pointer. The functions that are handed a window by their caller
  are modelled for the windows of the list: with a pointer at or past \<^verbatim>\<open>gWindowNextSlot\<close>
  they fail (\<open>None\<close>). The closing functions step a pointer of their own through the array and
  pass it to \<^verbatim>\<open>window_close\<close>, also when a close handler has shortened the list in between;
  they read the slot whatever it holds (\<open>slot_read\<close>).
\<close>

definition deref :: "state \<Rightarrow> nat \<Rightarrow> rct_window option" where
  "deref s w = (if w < length (window_list s) then Some (window_list s ! w) else None)"

definition slot_read :: "state \<Rightarrow> nat \<Rightarrow> rct_window" where
  "slot_read s w = (if w < length (window_list s) then window_list s ! w else spare_slots s w)"

text \<open>
  The two scanning loops of the file:
  \<^verbatim>\<open>for (w = g_window_list + k; w < RCT2_NEW_WINDOW; w++) if (P(w)) break;\<close> and
  \<^verbatim>\<open>for (v = RCT2_LAST_WINDOW; v >= g_window_list; v--) if (P(v)) break;\<close>.
  The result is the window the loop stops at, \<open>None\<close> when it runs through.
\<close>

function first_from :: "('a \<Rightarrow> bool) \<Rightarrow> 'a list \<Rightarrow> nat \<Rightarrow> nat option" where
  "first_from P ws k =
     (if k < length ws then (if P (ws ! k) then Some k else first_from P ws (Suc k))
      else None)"
  by pat_completeness auto
termination
  by (relation "measure (\<lambda>(P, ws, k). length ws - k)") auto

declare first_from.simps [simp del]

fun last_below :: "('a \<Rightarrow> bool) \<Rightarrow> 'a list \<Rightarrow> nat \<Rightarrow> nat option" where
  "last_below P ws 0 = None"
| "last_below P ws (Suc k) = (if P (ws ! k) then Some k else last_below P ws k)"

subsection \<open>Invalidation\<close>

definition gfx_set_dirty_blocks :: "int \<Rightarrow> int \<Rightarrow> int \<Rightarrow> int \<Rightarrow> state \<Rightarrow> state" where
  "gfx_set_dirty_blocks l t r b s = s\<lparr>dirty_blocks := dirty_blocks s @ [(l, t, r, b)]\<rparr>"

definition window_invalidate :: "nat option \<Rightarrow> state \<Rightarrow> state option" where
  "window_invalidate window s =
     (case window of
        None \<Rightarrow> Some s
      | Some w \<Rightarrow>
          do {
            win \<leftarrow> deref s w;
            Some (gfx_set_dirty_blocks (win_x win) (win_y win)
                    (win_x win + win_width win) (win_y win + win_height win) s)
          })"

subsection \<open>Event dispatch\<close>

definition window_event_close_call :: "env \<Rightarrow> nat \<Rightarrow> state \<Rightarrow> state option" where
  "window_event_close_call E w s =
     (case ev_close (handlers E (win_event_handlers (slot_read s w))) of
        None \<Rightarrow> Some s
      | Some f \<Rightarrow> Some (f w s))"

definition window_event_invalidate_call :: "env \<Rightarrow> nat \<Rightarrow> state \<Rightarrow> state option" where
  "window_event_invalidate_call E w s =
     do {
       win \<leftarrow> deref s w;
       (case ev_invalidate (handlers E (win_event_handlers win)) of
          None \<Rightarrow> Some s
        | Some f \<Rightarrow> Some (f w s))
     }"

definition window_event_paint_call ::
    "env \<Rightarrow> nat \<Rightarrow> rct_drawpixelinfo \<Rightarrow> state \<Rightarrow> state option" where
  "window_event_paint_call E w dpi s =
     do {
       win \<leftarrow> deref s w;
       (case ev_paint (handlers E (win_event_handlers win)) of
          None \<Rightarrow> Some s
        | Some f \<Rightarrow> Some (f w dpi s))
     }"

subsection \<open>Finding and closing windows\<close>

definition window_find_by_class :: "rct_windowclass \<Rightarrow> state \<Rightarrow> nat option" where
  "window_find_by_class cls s =
     first_from (\<lambda>w. win_classification w = cls) (window_list s) 0"

definition window_find_by_number :: "rct_windowclass \<Rightarrow> nat \<Rightarrow> state \<Rightarrow> nat option" where
  "window_find_by_number cls number s =
     first_from (\<lambda>w. win_classification w = cls \<and> win_number w = number) (window_list s) 0"

text \<open>
  \<^verbatim>\<open>RCT2_NEW_WINDOW--; memmove(window, window + 1, num_windows * sizeof(rct_window))\<close>:
  the list has one entry less, and every slot from \<open>w\<close> on holds what the next slot held.
  The slot that was the last of the list is not written: it is now the first spare slot and
  holds what it held.
\<close>

definition memmove_down :: "'a list \<Rightarrow> nat \<Rightarrow> 'a list" where
  "memmove_down ws w = map (\<lambda>k. if k < w then ws ! k else ws ! Suc k) [0..<length ws - 1]"

definition window_close :: "env \<Rightarrow> nat option \<Rightarrow> state \<Rightarrow> state option" where
  "window_close E window s =
     (case window of
        None \<Rightarrow> Some s
      | Some w0 \<Rightarrow>
          do {
            let cls = win_classification (slot_read s w0);
            let number = win_number (slot_read s w0);
            s1 \<leftarrow> window_event_close_call E w0 s;
            (case window_find_by_number cls number s1 of
               None \<Rightarrow> Some s1
             | Some w \<Rightarrow>
                 do {
                   win \<leftarrow> deref s1 w;
                   let s2 = (case win_viewport win of
                               None \<Rightarrow> s1
                             | Some p \<Rightarrow>
                                 s1\<lparr>viewport_store := (viewport_store s1)
                                       (p := (viewport_store s1 p)\<lparr>vp_width := 0\<rparr>),
                                    window_list := (window_list s1)
                                       [w := win\<lparr>win_viewport := None\<rparr>]\<rparr>);
                   s3 \<leftarrow> window_invalidate (Some w) s2;
                   Some (s3\<lparr>window_list := memmove_down (window_list s3) w,
                            spare_slots := (spare_slots s3)
                              (length (window_list s3) - 1 :=
                                 window_list s3 ! (length (window_list s3) - 1))\<rparr>)
                 })
          })"



partial_function (option) window_close_by_number_loop ::
    "env \<Rightarrow> rct_windowclass \<Rightarrow> nat \<Rightarrow> nat \<Rightarrow> state \<Rightarrow> state option" where
  "window_close_by_number_loop E cls number w s =
     (if w < length (window_list s) then
        (if win_classification (window_list s ! w) = cls \<and>
            win_number (window_list s ! w) = number then
           Option.bind (window_close E (Some w) s) (window_close_by_number_loop E cls number 0)
         else window_close_by_number_loop E cls number (Suc w) s)
      else Some s)"

definition window_close_by_number ::
    "env \<Rightarrow> rct_windowclass \<Rightarrow> nat \<Rightarrow> state \<Rightarrow> state option" where
  "window_close_by_number E cls number s = window_close_by_number_loop E cls number 0 s"

subsection \<open>The window limit\<close>

text \<open>
  \<^verbatim>\<open>window_close_surplus(cap, avoid_classification)\<close>. The first loop counts the open windows,
  looking at no more than \<^verbatim>\<open>WINDOW_LIMIT_MAX\<close> slots. The second loop runs \<^verbatim>\<open>diff\<close> times; each
  round scans from the list head for the first window without a protection flag. When there
  is none the scan ends at \<^verbatim>\<open>RCT2_NEW_WINDOW\<close>, never at \<^verbatim>\<open>nullptr\<close>: the round then reads the
  first spare slot and passes it to \<^verbatim>\<open>window_close\<close>.
  \<^verbatim>\<open>avoid_classification\<close> is a \<^verbatim>\<open>sint8\<close> with -1 for "none": an optional class.
\<close>

definition window_count :: "env \<Rightarrow> state \<Rightarrow> int" where
  "window_count E s =
     (if int (length (window_list s)) < WINDOW_LIMIT_MAX E then int (length (window_list s))
      else WINDOW_LIMIT_MAX E)"

definition closable :: "rct_window \<Rightarrow> bool" where
  "closable w \<longleftrightarrow> win_flags w \<inter> {WF_STICK_TO_BACK, WF_STICK_TO_FRONT, WF_NO_AUTO_CLOSE} = {}"

fun window_close_surplus_loop ::
    "env \<Rightarrow> rct_windowclass option \<Rightarrow> nat \<Rightarrow> state \<Rightarrow> state option" where
  "window_close_surplus_loop E avoid_classification 0 s = Some s"
| "window_close_surplus_loop E avoid_classification (Suc n) s =
     (let w = (case first_from closable (window_list s) 0 of
                 Some k \<Rightarrow> k
               | None \<Rightarrow> length (window_list s))
      in if avoid_classification \<noteq> None \<and>
            Some (win_classification (slot_read s w)) = avoid_classification
         then window_close_surplus_loop E avoid_classification n s
         else do {
           s' \<leftarrow> window_close E (Some w) s;
           window_close_surplus_loop E avoid_classification n s'
         })"

definition window_close_surplus ::
    "env \<Rightarrow> int \<Rightarrow> rct_windowclass option \<Rightarrow> state \<Rightarrow> state option" where
  "window_close_surplus E cap avoid_classification s =
     (let count = window_count E s;
          diff = count - WINDOW_LIMIT_RESERVED E - cap
      in window_close_surplus_loop E avoid_classification (nat diff) s)"

definition window_set_window_limit :: "env \<Rightarrow> int \<Rightarrow> state \<Rightarrow> state option" where
  "window_set_window_limit E value s =
     (let prev = window_limit s;
          val = Clamp (WINDOW_LIMIT_MIN E) value (WINDOW_LIMIT_MAX E);
          s1 = s\<lparr>window_limit := val\<rparr>
      in if val < prev then window_close_surplus E val (Some WC_OPTIONS) s1 else Some s1)"

subsection \<open>Closing many windows\<close>

definition sticky :: "rct_window \<Rightarrow> bool" where
  "sticky w \<longleftrightarrow> win_flags w \<inter> {WF_STICK_TO_BACK, WF_STICK_TO_FRONT} \<noteq> {}"









subsection \<open>Z-order\<close>

text \<open>
  The swap loop of \<^verbatim>\<open>window_bring_to_front\<close>:
  \<^verbatim>\<open>do { t = *w; *w = *(w + 1); *(w + 1) = t; w++; } while (w != v);\<close>.
  Swapping with a slot at or past \<^verbatim>\<open>RCT2_NEW_WINDOW\<close> is a failure of the model.
\<close>

function bring_to_front_swaps :: "nat \<Rightarrow> nat \<Rightarrow> rct_window list \<Rightarrow> rct_window list option" where
  "bring_to_front_swaps w v ws =
     (if Suc w < length ws then
        (let ws' = ws[w := ws ! Suc w, Suc w := ws ! w]
         in if Suc w \<noteq> v then bring_to_front_swaps (Suc w) v ws' else Some ws')
      else None)"
  by pat_completeness auto
termination
  by (relation "measure (\<lambda>(w, v, ws). length ws - w)") auto

declare bring_to_front_swaps.simps [simp del]

text \<open>
  \<^verbatim>\<open>window_bring_to_front\<close> in its two blocks: the move to the slot of the last window that is
  not stick-to-front, and the shift to the right of a window that ends left of x = 20.
\<close>

definition bring_to_front_move :: "nat \<Rightarrow> state \<Rightarrow> (nat \<times> state) option" where
  "bring_to_front_move w s =
     (case last_below (\<lambda>v. WF_STICK_TO_FRONT \<notin> win_flags v) (window_list s)
             (length (window_list s)) of
        None \<Rightarrow> Some (w, s)
      | Some v \<Rightarrow>
          if w \<noteq> v then
            do {
              ws' \<leftarrow> bring_to_front_swaps w v (window_list s);
              s' \<leftarrow> window_invalidate (Some v) (s\<lparr>window_list := ws'\<rparr>);
              Some (v, s')
            }
          else Some (w, s))"

definition bring_to_front_nudge :: "nat \<Rightarrow> state \<Rightarrow> (nat \<times> state) option" where
  "bring_to_front_nudge w s =
     do {
       win \<leftarrow> deref s w;
       if win_x win + win_width win < 20 then
         do {
           let i = 20 - win_x win;
           let s2 = s\<lparr>window_list := (window_list s)[w := win\<lparr>win_x := s16 (win_x win + i)\<rparr>]\<rparr>;
           let s3 = (case win_viewport win of
                       None \<Rightarrow> s2
                     | Some p \<Rightarrow>
                         s2\<lparr>viewport_store := (viewport_store s2)
                           (p := (viewport_store s2 p)
                              \<lparr>vp_x := s16 (vp_x (viewport_store s2 p) + i)\<rparr>)\<rparr>);
           s4 \<leftarrow> window_invalidate (Some w) s3;
           Some (w, s4)
         }
       else Some (w, s)
     }"

definition window_bring_to_front :: "nat \<Rightarrow> state \<Rightarrow> (nat \<times> state) option" where
  "window_bring_to_front w0 s =
     do {
       win0 \<leftarrow> deref s w0;
       if sticky win0 then Some (w0, s)
       else do {
         (w, s1) \<leftarrow> bring_to_front_move w0 s;
         bring_to_front_nudge w s1
       }
     }"

subsection \<open>Zoom\<close>

text \<open>
  The two loops of \<^verbatim>\<open>window_zoom_set\<close> work on the window's saved view position and on the
  viewport \<^verbatim>\<open>v = w->viewport\<close>; the pair is written back when the loops are done. The four
  fields they assign are \<^verbatim>\<open>sint16\<close>: the arithmetic is done on \<^verbatim>\<open>int\<close> and the result converted.
\<close>

function zoom_in_loop :: "int \<Rightarrow> rct_window \<times> rct_viewport \<Rightarrow> rct_window \<times> rct_viewport" where
  "zoom_in_loop zoomLevel (w, v) =
     (if vp_zoom v > zoomLevel then
        (let v1 = v\<lparr>vp_zoom := vp_zoom v - 1\<rparr>;
             w1 = w\<lparr>win_saved_view_x := s16 (win_saved_view_x w + cdiv (vp_view_width v1) 4),
                    win_saved_view_y := s16 (win_saved_view_y w + cdiv (vp_view_height v1) 4)\<rparr>;
             v2 = v1\<lparr>vp_view_width := s16 (cdiv (vp_view_width v1) 2),
                     vp_view_height := s16 (cdiv (vp_view_height v1) 2)\<rparr>
         in zoom_in_loop zoomLevel (w1, v2))
      else (w, v))"
  by pat_completeness auto
termination
  by (relation "measure (\<lambda>(zoomLevel, w, v). nat (vp_zoom v - zoomLevel))") auto

function zoom_out_loop :: "int \<Rightarrow> rct_window \<times> rct_viewport \<Rightarrow> rct_window \<times> rct_viewport" where
  "zoom_out_loop zoomLevel (w, v) =
     (if vp_zoom v < zoomLevel then
        (let v1 = v\<lparr>vp_zoom := vp_zoom v + 1\<rparr>;
             w1 = w\<lparr>win_saved_view_x := s16 (win_saved_view_x w - cdiv (vp_view_width v1) 2),
                    win_saved_view_y := s16 (win_saved_view_y w - cdiv (vp_view_height v1) 2)\<rparr>;
             v2 = v1\<lparr>vp_view_width := s16 (vp_view_width v1 * 2),
                     vp_view_height := s16 (vp_view_height v1 * 2)\<rparr>
         in zoom_out_loop zoomLevel (w1, v2))
      else (w, v))"
  by pat_completeness auto
termination
  by (relation "measure (\<lambda>(zoomLevel, w, v). nat (zoomLevel - vp_zoom v))") auto

declare zoom_in_loop.simps [simp del] zoom_out_loop.simps [simp del]

text \<open>
  The cursor-anchored part. The map point under the cursor and the projection to the screen
  belong to the viewport and map collaborators; \<^verbatim>\<open>1 << zoom\<close> is a power of two and
  \<^verbatim>\<open>width >> 1\<close> rounds down. The four out-parameters are \<^verbatim>\<open>sint16\<close>.
\<close>

definition window_viewport_get_map_coords_by_cursor ::
    "env \<Rightarrow> rct_window \<Rightarrow> rct_viewport \<Rightarrow> int \<times> int \<times> int \<times> int" where
  "window_viewport_get_map_coords_by_cursor E w v =
     (let (mouse_x, mouse_y) = cursor_position_scaled E;
          (map_x, map_y) = get_map_coordinates_from_pos E mouse_x mouse_y;
          map_x = s16 map_x; map_y = s16 map_y;
          base_height = tile_element_height E map_x map_y;
          (dest_x, dest_y) = centre_2d_coordinates E map_x map_y base_height v;
          rebased_x = (win_width w div 2 - mouse_x) * 2 ^ nat (vp_zoom v);
          rebased_y = (win_height w div 2 - mouse_y) * 2 ^ nat (vp_zoom v);
          offset_x = s16 ((win_saved_view_x w - (dest_x + rebased_x)) * 2 ^ nat (vp_zoom v));
          offset_y = s16 ((win_saved_view_y w - (dest_y + rebased_y)) * 2 ^ nat (vp_zoom v))
      in (map_x, map_y, offset_x, offset_y))"

definition window_viewport_centre_tile_around_cursor ::
    "env \<Rightarrow> rct_window \<Rightarrow> rct_viewport \<Rightarrow> int \<Rightarrow> int \<Rightarrow> int \<Rightarrow> int \<Rightarrow> rct_window" where
  "window_viewport_centre_tile_around_cursor E w v map_x map_y offset_x offset_y =
     (let base_height = tile_element_height E map_x map_y;
          (dest_x, dest_y) = centre_2d_coordinates E map_x map_y base_height v;
          (mouse_x, mouse_y) = cursor_position_scaled E;
          rebased_x = (win_width w div 2 - mouse_x) * 2 ^ nat (vp_zoom v);
          rebased_y = (win_height w div 2 - mouse_y) * 2 ^ nat (vp_zoom v)
      in w\<lparr>win_saved_view_x := s16 (dest_x + rebased_x + cdiv offset_x (2 ^ nat (vp_zoom v))),
            win_saved_view_y := s16 (dest_y + rebased_y + cdiv offset_y (2 ^ nat (vp_zoom v)))\<rparr>)"

text \<open>
  \<^verbatim>\<open>window_zoom_set\<close> reads \<^verbatim>\<open>w->viewport\<close> without a test: a window without a viewport is a
  failure of the model. The last two calls pass the pointer \<open>w\<close> the caller gave, also when
  \<^verbatim>\<open>window_bring_to_front\<close> has moved the window to another slot.
\<close>

definition window_zoom_set :: "env \<Rightarrow> nat \<Rightarrow> int \<Rightarrow> bool \<Rightarrow> state \<Rightarrow> state option" where
  "window_zoom_set E w zoomLevel0 atCursor s =
     do {
       win \<leftarrow> deref s w;
       p \<leftarrow> win_viewport win;
       let v = viewport_store s p;
       let zoomLevel = Clamp 0 zoomLevel0 (MAX_ZOOM_LEVEL E);
       if vp_zoom v = zoomLevel then Some s
       else do {
         let (saved_map_x, saved_map_y, offset_x, offset_y) =
               (if zoom_to_cursor E \<and> atCursor
                then window_viewport_get_map_coords_by_cursor E win v else (0, 0, 0, 0));
         let (win1, v1) = zoom_in_loop zoomLevel (win, v);
         let (win2, v2) = zoom_out_loop zoomLevel (win1, v1);
         let win3 =
               (if zoom_to_cursor E \<and> atCursor
                then window_viewport_centre_tile_around_cursor E win2 v2
                       saved_map_x saved_map_y offset_x offset_y
                else win2);
         let s1 = s\<lparr>window_list := (window_list s)[w := win3],
                     viewport_store := (viewport_store s)(p := v2)\<rparr>;
         (w', s2) \<leftarrow> window_bring_to_front w s1;
         window_invalidate (Some w) s2
       }
     }"

subsection \<open>Scrolling to a location\<close>

text \<open>
  \<^verbatim>\<open>window_scroll_locations\<close>: the 17 anchor points, as fractions of the viewport size. Every
  entry of the source table is a multiple of 1/8, so the table holds the numerators; the
  product \<^verbatim>\<open>(sint16)(size * fraction)\<close> of a 16-bit size with such a float is exact and the
  conversion truncates towards zero.
\<close>

definition window_scroll_locations :: "(int \<times> int) list" where
  "window_scroll_locations =
     [(4, 4), (6, 4), (2, 4), (4, 6), (4, 2), (6, 6), (6, 2), (2, 6), (2, 2),
      (1, 4), (7, 4), (4, 1), (4, 7), (7, 1), (7, 7), (1, 7), (1, 1)]"









subsection \<open>Widgets\<close>

text \<open>
  A widget table is an array that ends with a widget of type \<^verbatim>\<open>WWT_LAST\<close>. A scan that finds
  no terminator leaves the table: the model fails there.
\<close>

definition widget_contains :: "rct_window \<Rightarrow> rct_widget \<Rightarrow> int \<Rightarrow> int \<Rightarrow> bool" where
  "widget_contains w widget x y \<longleftrightarrow>
     x \<ge> win_x w + wid_left widget \<and> x \<le> win_x w + wid_right widget \<and>
     y \<ge> win_y w + wid_top widget \<and> y \<le> win_y w + wid_bottom widget"

fun find_widget_loop ::
    "rct_window \<Rightarrow> int \<Rightarrow> int \<Rightarrow> rct_widget list \<Rightarrow> int \<Rightarrow> int \<Rightarrow> int option" where
  "find_widget_loop w x y [] i widget_index = None"
| "find_widget_loop w x y (widget # rest) i widget_index =
     (if wid_type widget = WWT_LAST then Some widget_index
      else if wid_type widget \<noteq> WWT_EMPTY then
        (if widget_contains w widget x y then find_widget_loop w x y rest (i + 1) i
         else find_widget_loop w x y rest (i + 1) widget_index)
      else find_widget_loop w x y rest (i + 1) widget_index)"

definition window_find_widget_from_point ::
    "env \<Rightarrow> nat \<Rightarrow> int \<Rightarrow> int \<Rightarrow> state \<Rightarrow> (int \<times> state) option" where
  "window_find_widget_from_point E w x y s =
     do {
       s1 \<leftarrow> window_event_invalidate_call E w s;
       win \<leftarrow> deref s1 w;
       widget_index \<leftarrow> find_widget_loop win x y (win_widgets win) 0 (-1);
       if widget_index \<noteq> -1 then
         (if wid_type (win_widgets win ! nat widget_index) = WWT_DROPDOWN
          then Some (widget_index + 1, s1) else Some (widget_index, s1))
       else Some (widget_index, s1)
     }"

subsection \<open>Scroll regions and the mouse wheel\<close>

definition nth_opt :: "'a list \<Rightarrow> int \<Rightarrow> 'a option" where
  "nth_opt xs i = (if 0 \<le> i \<and> i < int (length xs) then Some (xs ! nat i) else None)"

text \<open>
  \<^verbatim>\<open>window_get_scroll_widget\<close> returns a pointer to a widget or \<^verbatim>\<open>nullptr\<close>; the pointer is the
  widget's index in the table. \<^verbatim>\<open>window_get_widget_index\<close> turns the pointer back into an
  index, -1 if the scan does not meet it.
\<close>

fun window_get_scroll_widget_loop :: "rct_widget list \<Rightarrow> nat \<Rightarrow> int \<Rightarrow> nat option option" where
  "window_get_scroll_widget_loop [] k scrollIndex = None"
| "window_get_scroll_widget_loop (widget # rest) k scrollIndex =
     (if wid_type widget = WWT_LAST then Some None
      else if wid_type widget \<noteq> WWT_SCROLL then
        window_get_scroll_widget_loop rest (Suc k) scrollIndex
      else if scrollIndex = 0 then Some (Some k)
      else window_get_scroll_widget_loop rest (Suc k) (scrollIndex - 1))"

definition window_get_scroll_widget :: "rct_window \<Rightarrow> int \<Rightarrow> nat option option" where
  "window_get_scroll_widget w scrollIndex =
     window_get_scroll_widget_loop (win_widgets w) 0 scrollIndex"

fun window_get_widget_index_loop :: "rct_widget list \<Rightarrow> nat \<Rightarrow> nat option \<Rightarrow> int option" where
  "window_get_widget_index_loop [] i widget = None"
| "window_get_widget_index_loop (widget2 # rest) i widget =
     (if wid_type widget2 = WWT_LAST then Some (-1)
      else if widget = Some i then Some (int i)
      else window_get_widget_index_loop rest (Suc i) widget)"

definition window_get_widget_index :: "rct_window \<Rightarrow> nat option \<Rightarrow> int option" where
  "window_get_widget_index w widget = window_get_widget_index_loop (win_widgets w) 0 widget"

definition window_get_scroll_data_index :: "rct_window \<Rightarrow> int \<Rightarrow> int" where
  "window_get_scroll_data_index w widget_index =
     int (length (filter (\<lambda>widget. wid_type widget = WWT_SCROLL)
            (take (nat widget_index) (win_widgets w))))"

text \<open>
  \<^verbatim>\<open>widget_scroll_update_thumbs\<close> writes the four thumb fields of one scroll region and nothing
  else: first the horizontal pair, then the vertical pair. The positions are integer
  arithmetic; a thumb shorter than 20 pixels is widened with a computation in \<^verbatim>\<open>double\<close> and
  \<^verbatim>\<open>std::lround\<close>, which is the parameter \<open>thumb_lround\<close>.
\<close>

definition h_thumb_positions :: "env \<Rightarrow> rct_widget \<Rightarrow> rct_scroll \<Rightarrow> int \<times> int" where
  "h_thumb_positions E widget scroll =
     (let view_size = wid_right widget - wid_left widget - 21;
          view_size = (if VSCROLLBAR_VISIBLE \<in> scr_flags scroll
                       then view_size - 11 else view_size);
          x = scr_h_left scroll * view_size;
          x = (if scr_h_right scroll \<noteq> 0 then cdiv x (scr_h_right scroll) else x);
          thumb_left = x + 11;
          x = wid_right widget - wid_left widget - 2;
          x = (if VSCROLLBAR_VISIBLE \<in> scr_flags scroll then x - 11 else x);
          x = x + scr_h_left scroll;
          x = (if scr_h_right scroll \<noteq> 0
               then cdiv (x * view_size) (scr_h_right scroll) else x);
          x = x + 11;
          view_size = view_size + 10;
          thumb_right = min x view_size
      in if thumb_right - thumb_left < 20
         then thumb_lround E thumb_left thumb_right view_size
         else (thumb_left, thumb_right))"

definition v_thumb_positions :: "env \<Rightarrow> rct_widget \<Rightarrow> rct_scroll \<Rightarrow> int \<times> int" where
  "v_thumb_positions E widget scroll =
     (let view_size = wid_bottom widget - wid_top widget - 21;
          view_size = (if HSCROLLBAR_VISIBLE \<in> scr_flags scroll
                       then view_size - 11 else view_size);
          y = scr_v_top scroll * view_size;
          y = (if scr_v_bottom scroll \<noteq> 0 then cdiv y (scr_v_bottom scroll) else y);
          thumb_top = y + 11;
          y = wid_bottom widget - wid_top widget - 2;
          y = (if HSCROLLBAR_VISIBLE \<in> scr_flags scroll then y - 11 else y);
          y = y + scr_v_top scroll;
          y = (if scr_v_bottom scroll \<noteq> 0
               then cdiv (y * view_size) (scr_v_bottom scroll) else y);
          y = y + 11;
          view_size = view_size + 10;
          thumb_bottom = min y view_size
      in if thumb_bottom - thumb_top < 20
         then thumb_lround E thumb_top thumb_bottom view_size
         else (thumb_top, thumb_bottom))"

definition update_thumbs :: "env \<Rightarrow> rct_widget \<Rightarrow> rct_scroll \<Rightarrow> rct_scroll" where
  "update_thumbs E widget scroll =
     (let scroll1 =
            (if HSCROLLBAR_VISIBLE \<in> scr_flags scroll then
               scroll\<lparr>scr_h_thumb_left := fst (h_thumb_positions E widget scroll),
                      scr_h_thumb_right := snd (h_thumb_positions E widget scroll)\<rparr>
             else scroll)
      in if VSCROLLBAR_VISIBLE \<in> scr_flags scroll1 then
           scroll1\<lparr>scr_v_thumb_top := fst (v_thumb_positions E widget scroll1),
                   scr_v_thumb_bottom := snd (v_thumb_positions E widget scroll1)\<rparr>
         else scroll1)"

definition widget_scroll_update_thumbs :: "env \<Rightarrow> nat \<Rightarrow> int \<Rightarrow> state \<Rightarrow> state option" where
  "widget_scroll_update_thumbs E w widget_index s =
     do {
       win \<leftarrow> deref s w;
       widget \<leftarrow> nth_opt (win_widgets win) widget_index;
       let di = window_get_scroll_data_index win widget_index;
       scroll \<leftarrow> nth_opt (win_scrolls win) di;
       Some (s\<lparr>window_list := (window_list s)
               [w := win\<lparr>win_scrolls :=
                  (win_scrolls win)[nat di := update_thumbs E widget scroll]\<rparr>]\<rparr>)
     }"

definition widget_invalidate :: "nat \<Rightarrow> int \<Rightarrow> state \<Rightarrow> state option" where
  "widget_invalidate w widgetIndex s =
     do {
       win \<leftarrow> deref s w;
       widget \<leftarrow> nth_opt (win_widgets win) widgetIndex;
       if wid_left widget = -2 then Some s
       else Some (gfx_set_dirty_blocks (win_x win + wid_left widget) (win_y win + wid_top widget)
                    (win_x win + wid_right widget + 1) (win_y win + wid_bottom widget + 1) s)
     }"

definition window_scroll_wheel_input :: "env \<Rightarrow> nat \<Rightarrow> int \<Rightarrow> int \<Rightarrow> state \<Rightarrow> state option" where
  "window_scroll_wheel_input E w scrollIndex wheel s =
     do {
       win \<leftarrow> deref s w;
       widget_ptr \<leftarrow> window_get_scroll_widget win scrollIndex;
       widgetIndex \<leftarrow> window_get_widget_index win widget_ptr;
       scroll \<leftarrow> nth_opt (win_scrolls win) scrollIndex;
       k \<leftarrow> widget_ptr;
       let widget = win_widgets win ! k;
       let scroll' =
         (if VSCROLLBAR_VISIBLE \<in> scr_flags scroll then
            (let sz = wid_bottom widget - wid_top widget - 1;
                 sz = (if HSCROLLBAR_VISIBLE \<in> scr_flags scroll then sz - 11 else sz);
                 sz = max 0 (scr_v_bottom scroll - sz)
             in scroll\<lparr>scr_v_top := min (max 0 (scr_v_top scroll + wheel)) sz\<rparr>)
          else
            (let sz = wid_right widget - wid_left widget - 1;
                 sz = (if VSCROLLBAR_VISIBLE \<in> scr_flags scroll then sz - 11 else sz);
                 sz = max 0 (scr_h_right scroll - sz)
             in scroll\<lparr>scr_h_left := min (max 0 (scr_h_left scroll + wheel)) sz\<rparr>));
       let s1 = s\<lparr>window_list := (window_list s)
                  [w := win\<lparr>win_scrolls := (win_scrolls win)[nat scrollIndex := scroll']\<rparr>]\<rparr>;
       s2 \<leftarrow> widget_scroll_update_thumbs E w widgetIndex s1;
       widget_invalidate w widgetIndex s2
     }"

subsection \<open>Drawing\<close>

definition window_covers_window :: "rct_window \<Rightarrow> rct_window \<Rightarrow> bool" where
  "window_covers_window w w_other \<longleftrightarrow>
     win_x w_other \<le> win_x w \<and> win_y w_other \<le> win_y w \<and>
     win_x w_other + win_width w_other \<ge> win_x w + win_width w \<and>
     win_y w_other + win_height w_other \<ge> win_y w + win_height w"

definition set_visibility :: "nat \<Rightarrow> visibility_cache \<Rightarrow> state \<Rightarrow> state" where
  "set_visibility w vc s =
     s\<lparr>window_list := (window_list s)[w := (window_list s ! w)\<lparr>win_visibility := vc\<rparr>]\<rparr>"

definition set_viewport_visibility :: "nat \<Rightarrow> visibility_cache \<Rightarrow> state \<Rightarrow> state" where
  "set_viewport_visibility p vc s =
     s\<lparr>viewport_store := (viewport_store s)(p := (viewport_store s p)\<lparr>vp_visibility := vc\<rparr>)\<rparr>"

definition window_is_visible :: "nat option \<Rightarrow> state \<Rightarrow> (bool \<times> state) option" where
  "window_is_visible window s =
     (case window of
        None \<Rightarrow> Some (False, s)
      | Some w \<Rightarrow>
          do {
            win \<leftarrow> deref s w;
            if win_visibility win = VC_VISIBLE then Some (True, s)
            else if win_visibility win = VC_COVERED then Some (False, s)
            else
              (case win_viewport win of
                 None \<Rightarrow> Some (True, set_visibility w VC_VISIBLE s)
               | Some p \<Rightarrow>
                   if win_classification win = WC_MAIN_WINDOW
                   then Some (True, set_visibility w VC_VISIBLE s)
                   else
                     (case first_from (window_covers_window win) (window_list s) (Suc w) of
                        Some w_other \<Rightarrow>
                          Some (False,
                            set_viewport_visibility p VC_COVERED (set_visibility w VC_COVERED s))
                      | None \<Rightarrow>
                          Some (True,
                            set_viewport_visibility p VC_VISIBLE (set_visibility w VC_VISIBLE s))))
          })"

text \<open>
  \<^verbatim>\<open>window_draw_single\<close> crops a copy of the render-surface descriptor to the region and calls
  the window's paint handler with it; each of the four crops returns without painting when
  nothing is left. The calls of \<^verbatim>\<open>window_event_paint_call\<close> are recorded, in order, with the
  window and the cropped descriptor they pass.
\<close>

type_synonym paint_trace = "(nat \<times> rct_drawpixelinfo) list"

definition crop_dpi ::
    "rct_drawpixelinfo \<Rightarrow> int \<Rightarrow> int \<Rightarrow> int \<Rightarrow> int \<Rightarrow> rct_drawpixelinfo option" where
  "crop_dpi dpi0 left top_y right bottom =
     do {
       dpi1 \<leftarrow>
         (let overflow = left - dpi_x dpi0 in
          if overflow > 0 then
            (let d = dpi0\<lparr>dpi_x := dpi_x dpi0 + overflow, dpi_width := dpi_width dpi0 - overflow\<rparr>
             in if dpi_width d \<le> 0 then None
                else Some (d\<lparr>dpi_pitch := dpi_pitch d + overflow,
                             dpi_bits := dpi_bits d + overflow\<rparr>))
          else Some dpi0);
       dpi2 \<leftarrow>
         (let overflow = dpi_x dpi1 + dpi_width dpi1 - right in
          if overflow > 0 then
            (let d = dpi1\<lparr>dpi_width := dpi_width dpi1 - overflow\<rparr>
             in if dpi_width d \<le> 0 then None
                else Some (d\<lparr>dpi_pitch := dpi_pitch d + overflow\<rparr>))
          else Some dpi1);
       dpi3 \<leftarrow>
         (let overflow = top_y - dpi_y dpi2 in
          if overflow > 0 then
            (let d = dpi2\<lparr>dpi_y := dpi_y dpi2 + overflow, dpi_height := dpi_height dpi2 - overflow\<rparr>
             in if dpi_height d \<le> 0 then None
                else Some (d\<lparr>dpi_bits := dpi_bits d + (dpi_width d + dpi_pitch d) * overflow\<rparr>))
          else Some dpi2);
       (let overflow = dpi_y dpi3 + dpi_height dpi3 - bottom in
        if overflow > 0 then
          (let d = dpi3\<lparr>dpi_height := dpi_height dpi3 - overflow\<rparr>
           in if dpi_height d \<le> 0 then None else Some d)
        else Some dpi3)
     }"

definition window_draw_single ::
    "env \<Rightarrow> rct_drawpixelinfo \<Rightarrow> nat \<Rightarrow> int \<Rightarrow> int \<Rightarrow> int \<Rightarrow> int \<Rightarrow>
     state \<times> paint_trace \<Rightarrow> (state \<times> paint_trace) option" where
  "window_draw_single E dpi w left top_y right bottom st =
     (case crop_dpi dpi left top_y right bottom of
        None \<Rightarrow> Some st
      | Some copy \<Rightarrow>
          do {
            s1 \<leftarrow> window_event_invalidate_call E w (fst st);
            s2 \<leftarrow> window_event_paint_call E w copy s1;
            Some (s2, snd st @ [(w, copy)])
          })"

text \<open>
  The paint loop of \<^verbatim>\<open>window_draw\<close>:
  \<^verbatim>\<open>for (v = w; v < RCT2_NEW_WINDOW; v++)\<close>. The handlers it calls may change the list, so
  the loop is bounded by nothing but the state it finds.
\<close>

partial_function (option) window_draw_paint_loop ::
    "env \<Rightarrow> rct_drawpixelinfo \<Rightarrow> nat \<Rightarrow> nat \<Rightarrow> int \<Rightarrow> int \<Rightarrow> int \<Rightarrow> int \<Rightarrow>
     state \<times> paint_trace \<Rightarrow> (state \<times> paint_trace) option" where
  "window_draw_paint_loop E dpi w v left top_y right bottom st =
     (if v < length (window_list (fst st)) then
        (if w = v \<or> WF_TRANSPARENT \<in> win_flags (window_list (fst st) ! v) then
           Option.bind (window_is_visible (Some v) (fst st)) (\<lambda>(vis, s1).
             if vis then
               Option.bind (window_draw_single E dpi v left top_y right bottom (s1, snd st))
                 (window_draw_paint_loop E dpi w (Suc v) left top_y right bottom)
             else window_draw_paint_loop E dpi w (Suc v) left top_y right bottom (s1, snd st))
         else window_draw_paint_loop E dpi w (Suc v) left top_y right bottom st)
      else Some st)"

text \<open>
  The test of \<^verbatim>\<open>window_draw_split\<close> for a window that overlaps the region and is not
  transparent, and the two regions its if-chain passes to \<^verbatim>\<open>window_draw\<close> (\<open>None\<close> when no
  branch of the chain is taken).
\<close>

definition overlaps_opaque :: "int \<Rightarrow> int \<Rightarrow> int \<Rightarrow> int \<Rightarrow> rct_window \<Rightarrow> bool" where
  "overlaps_opaque left top_y right bottom topwindow \<longleftrightarrow>
     \<not> (win_x topwindow \<ge> right \<or> win_y topwindow \<ge> bottom) \<and>
     \<not> (win_x topwindow + win_width topwindow \<le> left \<or>
        win_y topwindow + win_height topwindow \<le> top_y) \<and>
     WF_TRANSPARENT \<notin> win_flags topwindow"

datatype split_edge = SplitLeft | SplitRight | SplitTop | SplitBottom

definition split_at :: "rct_window \<Rightarrow> int \<Rightarrow> int \<Rightarrow> int \<Rightarrow> int \<Rightarrow> split_edge option" where
  "split_at topwindow left top_y right bottom =
     (if win_x topwindow > left then Some SplitLeft
      else if win_x topwindow + win_width topwindow < right then Some SplitRight
      else if win_y topwindow > top_y then Some SplitTop
      else if win_y topwindow + win_height topwindow < bottom then Some SplitBottom
      else None)"

type_synonym region = "int \<times> int \<times> int \<times> int"

definition split_first :: "split_edge \<Rightarrow> rct_window \<Rightarrow> region \<Rightarrow> region" where
  "split_first e topwindow rg =
     (case rg of (left, top_y, right, bottom) \<Rightarrow>
        (case e of
           SplitLeft \<Rightarrow> (left, top_y, win_x topwindow, bottom)
         | SplitRight \<Rightarrow> (left, top_y, win_x topwindow + win_width topwindow, bottom)
         | SplitTop \<Rightarrow> (left, top_y, right, win_y topwindow)
         | SplitBottom \<Rightarrow> (left, top_y, right, win_y topwindow + win_height topwindow)))"

definition split_second :: "split_edge \<Rightarrow> rct_window \<Rightarrow> region \<Rightarrow> region" where
  "split_second e topwindow rg =
     (case rg of (left, top_y, right, bottom) \<Rightarrow>
        (case e of
           SplitLeft \<Rightarrow> (win_x topwindow, top_y, right, bottom)
         | SplitRight \<Rightarrow> (win_x topwindow + win_width topwindow, top_y, right, bottom)
         | SplitTop \<Rightarrow> (left, win_y topwindow, right, bottom)
         | SplitBottom \<Rightarrow> (left, win_y topwindow + win_height topwindow, right, bottom)))"

text \<open>
  \<^verbatim>\<open>window_draw_split\<close> and \<^verbatim>\<open>window_draw\<close> call each other. \<^verbatim>\<open>window_draw_split\<close> is written
  over the function it calls back (\<open>draw\<close>); \<^verbatim>\<open>window_draw\<close> passes itself. The edge is chosen
  and the first region computed from the occluder as it is when the split starts; the
  second call reads \<^verbatim>\<open>topwindow\<close> again, after the first call has returned. Nothing bounds
  the recursion when handlers move windows while painting, so \<open>None\<close> also stands for a draw
  that does not return.
\<close>

abbreviation window_draw_split ::
    "(int \<Rightarrow> int \<Rightarrow> int \<Rightarrow> int \<Rightarrow> state \<times> paint_trace \<Rightarrow> (state \<times> paint_trace) option) \<Rightarrow>
     nat \<Rightarrow> int \<Rightarrow> int \<Rightarrow> int \<Rightarrow> int \<Rightarrow> state \<times> paint_trace \<Rightarrow>
     (bool \<times> state \<times> paint_trace) option" where
  "window_draw_split draw w left top_y right bottom st \<equiv>
     (case first_from (overlaps_opaque left top_y right bottom) (window_list (fst st)) (Suc w) of
        None \<Rightarrow> Some (False, st)
      | Some t \<Rightarrow>
          (case split_at (window_list (fst st) ! t) left top_y right bottom of
             None \<Rightarrow> Some (True, st)
           | Some e \<Rightarrow>
               (case split_first e (window_list (fst st) ! t) (left, top_y, right, bottom) of
                  (l1, t1, r1, b1) \<Rightarrow>
                    Option.bind (draw l1 t1 r1 b1 st) (\<lambda>st1.
                    Option.bind (deref (fst st1) t) (\<lambda>topwindow.
                      (case split_second e topwindow (left, top_y, right, bottom) of
                         (l2, t2, r2, b2) \<Rightarrow>
                           Option.bind (draw l2 t2 r2 b2 st1) (\<lambda>st2. Some (True, st2))))))))"

partial_function (option) window_draw ::
    "env \<Rightarrow> rct_drawpixelinfo \<Rightarrow> nat \<Rightarrow> int \<Rightarrow> int \<Rightarrow> int \<Rightarrow> int \<Rightarrow>
     state \<times> paint_trace \<Rightarrow> (state \<times> paint_trace) option" where
  "window_draw E dpi w left top_y right bottom st =
     Option.bind (window_is_visible (Some w) (fst st)) (\<lambda>(vis, s1).
       if \<not> vis then Some (s1, snd st)
       else
         Option.bind (window_draw_split (window_draw E dpi w) w left top_y right bottom
                        (s1, snd st)) (\<lambda>(done, st2).
           if done then Some st2
           else
             Option.bind (deref (fst st2) w) (\<lambda>win.
               let left' = max left (win_x win);
                   top' = max top_y (win_y win);
                   right' = min right (win_x win + win_width win);
                   bottom' = min bottom (win_y win + win_height win)
               in if left' \<ge> right' then Some st2
                  else if top' \<ge> bottom' then Some st2
                  else window_draw_paint_loop E dpi w w left' top' right' bottom' st2)))"

subsection \<open>Moving a window\<close>

definition window_move_position :: "nat \<Rightarrow> int \<Rightarrow> int \<Rightarrow> state \<Rightarrow> state option" where
  "window_move_position w dx dy s =
     (if dx = 0 \<and> dy = 0 then Some s
      else do {
        s1 \<leftarrow> window_invalidate (Some w) s;
        win \<leftarrow> deref s1 w;
        let win' = win\<lparr>win_x := s16 (win_x win + dx), win_y := s16 (win_y win + dy)\<rparr>;
        let s2 = s1\<lparr>window_list := (window_list s1)[w := win']\<rparr>;
        let s3 = (case win_viewport win' of
                    None \<Rightarrow> s2
                  | Some p \<Rightarrow>
                      s2\<lparr>viewport_store := (viewport_store s2)
                        (p := (viewport_store s2 p)
                           \<lparr>vp_x := s16 (vp_x (viewport_store s2 p) + dx),
                            vp_y := s16 (vp_y (viewport_store s2 p) + dy)\<rparr>)\<rparr>);
        window_invalidate (Some w) s3
      })"

definition window_set_position :: "nat \<Rightarrow> int \<Rightarrow> int \<Rightarrow> state \<Rightarrow> state option" where
  "window_set_position w x y s =
     do {
       win \<leftarrow> deref s w;
       window_move_position w (x - win_x win) (y - win_y win) s
     }"

subsection \<open>Concrete windows and states\<close>

text \<open>Small concrete inputs, used to run the definitions.\<close>

definition no_handlers :: "state rct_window_event_list" where
  "no_handlers = \<lparr>ev_close = None, ev_invalidate = None, ev_paint = None\<rparr>"

definition plain_viewport :: rct_viewport where
  "plain_viewport =
     \<lparr>vp_width = 640, vp_height = 480, vp_x = 0, vp_y = 0, vp_view_x = 0, vp_view_y = 0,
      vp_view_width = 640, vp_view_height = 480, vp_flags_bit0 = False, vp_zoom = 0,
      vp_visibility = VC_UNKNOWN\<rparr>"

definition plain_window :: "rct_windowclass \<Rightarrow> nat \<Rightarrow> int \<Rightarrow> int \<Rightarrow> int \<Rightarrow> int \<Rightarrow> rct_window" where
  "plain_window cls number x y width height =
     \<lparr>win_event_handlers = 0, win_viewport = None, win_widgets = [],
      win_x = x, win_y = y, win_width = width, win_height = height,
      win_number = number, win_flags = {}, win_scrolls = [],
      win_saved_view_x = 0, win_saved_view_y = 0, win_classification = cls,
      win_viewport_target_sprite = None, win_viewport_smart_follow_sprite = None,
      win_visibility = VC_UNKNOWN\<rparr>"

definition plain_state :: "rct_window list \<Rightarrow> state" where
  "plain_state ws =
     \<lparr>window_list = ws, viewport_store = (\<lambda>p. plain_viewport), dirty_blocks = [],
      window_limit = 0, next_slot_null = False,
      spare_slots = (\<lambda>k. plain_window (WC_OTHER 0) 0 0 0 0 0)\<rparr>"

definition plain_env :: env where
  "plain_env =
     \<lparr>handlers = (\<lambda>h. no_handlers),
      WINDOW_LIMIT_MIN = 0, WINDOW_LIMIT_MAX = 64, WINDOW_LIMIT_RESERVED = 0,
      MAX_ZOOM_LEVEL = 3,
      SCREEN_FLAGS_TITLE_DEMO = False, SCREEN_FLAGS_SCENARIO_EDITOR = False,
      editor_step_is_landscape_editor = False, zoom_to_cursor = False,
      get_current_rotation = 0,
      tile_element_height = (\<lambda>x y. 0),
      coordinate_3d_to_2d = (\<lambda>(x, y, z) rotation. (y - x, (x + y) div 2 - z)),
      cursor_position_scaled = (0, 0),
      get_map_coordinates_from_pos = (\<lambda>x y. (0, 0)),
      centre_2d_coordinates = (\<lambda>x y z v. (0, 0)),
      thumb_lround = (\<lambda>thumb_lo thumb_hi view_size. (thumb_lo, thumb_hi))\<rparr>"

text \<open>
  What running the close handler of the window in slot \<open>w\<close> makes of a state: the handler
  named by the slot's table, applied to the pointer and the state; the state itself when the
  table has no close handler.
\<close>

definition close_handler_result :: "env \<Rightarrow> nat \<Rightarrow> state \<Rightarrow> state" where
  "close_handler_result E w s =
     (case ev_close (handlers E (win_event_handlers (slot_read s w))) of
        None \<Rightarrow> s
      | Some f \<Rightarrow> f w s)"

text \<open>The rectangle \<^verbatim>\<open>window_invalidate\<close> passes on: left, top, right, bottom.\<close>

definition window_rect :: "rct_window \<Rightarrow> int \<times> int \<times> int \<times> int" where
  "window_rect w = (win_x w, win_y w, win_x w + win_width w, win_y w + win_height w)"

text \<open>
  The z-order invariant of the data model (spec, section 3 and section 8): the
  stick-to-front windows are the last windows of the list.
\<close>

definition stick_to_front_last :: "rct_window list \<Rightarrow> bool" where
  "stick_to_front_last ws \<longleftrightarrow>
     (\<forall>i j. i \<le> j \<and> j < length ws \<and> WF_STICK_TO_FRONT \<in> win_flags (ws ! i)
        \<longrightarrow> WF_STICK_TO_FRONT \<in> win_flags (ws ! j))"

definition four_windows :: state where
  "four_windows =
     plain_state
       [(plain_window WC_MAIN_WINDOW 0 0 0 640 480)\<lparr>win_flags := {WF_STICK_TO_BACK}\<rparr>,
        (plain_window (WC_OTHER 7) 1 (-50) 40 30 20)\<lparr>win_viewport := Some 3\<rparr>,
        plain_window (WC_OTHER 7) 2 50 50 100 100,
        (plain_window (WC_OTHER 9) 0 0 0 640 28)\<lparr>win_flags := {WF_STICK_TO_FRONT}\<rparr>]"

text \<open>
  The point lies on a widget that takes part in hit-testing: the widget is not of type
  \<^verbatim>\<open>WWT_EMPTY\<close> and its bounds, relative to the window, contain the point (edges included).
\<close>

definition widget_hit :: "rct_window \<Rightarrow> int \<Rightarrow> int \<Rightarrow> rct_widget \<Rightarrow> bool" where
  "widget_hit w x y widget \<longleftrightarrow>
     wid_type widget \<noteq> WWT_EMPTY \<and>
     win_x w + wid_left widget \<le> x \<and> x \<le> win_x w + wid_right widget \<and>
     win_y w + wid_top widget \<le> y \<and> y \<le> win_y w + wid_bottom widget"

text \<open>The widget table has its terminator at index \<open>n\<close>, and no earlier one.\<close>

definition terminated_at :: "rct_widget list \<Rightarrow> nat \<Rightarrow> bool" where
  "terminated_at widgets n \<longleftrightarrow>
     n < length widgets \<and> wid_type (widgets ! n) = WWT_LAST \<and>
     (\<forall>i < n. wid_type (widgets ! i) \<noteq> WWT_LAST)"

text \<open>The state after \<^verbatim>\<open>window_event_invalidate_call\<close> on a window of the list.\<close>

definition invalidate_handler_result :: "env \<Rightarrow> nat \<Rightarrow> state \<Rightarrow> state" where
  "invalidate_handler_result E w s =
     (case ev_invalidate (handlers E (win_event_handlers (window_list s ! w))) of
        None \<Rightarrow> s
      | Some f \<Rightarrow> f w s)"

definition widget_window :: state where
  "widget_window =
     plain_state
       [(plain_window (WC_OTHER 7) 0 100 100 200 150)\<lparr>win_widgets :=
          [\<lparr>wid_type = WWT_OTHER 1, wid_left = 0, wid_right = 199, wid_top = 0, wid_bottom = 14\<rparr>,
           \<lparr>wid_type = WWT_EMPTY, wid_left = 0, wid_right = 199, wid_top = 0, wid_bottom = 149\<rparr>,
           \<lparr>wid_type = WWT_DROPDOWN, wid_left = 10, wid_right = 50, wid_top = 20, wid_bottom = 30\<rparr>,
           \<lparr>wid_type = WWT_OTHER 2, wid_left = 60, wid_right = 70, wid_top = 20, wid_bottom = 30\<rparr>,
           \<lparr>wid_type = WWT_LAST, wid_left = 0, wid_right = 0, wid_top = 0, wid_bottom = 0\<rparr>]\<rparr>]"

definition scroll_window :: state where
  "scroll_window =
     plain_state
       [(plain_window (WC_OTHER 7) 0 100 100 200 150)\<lparr>
          win_widgets :=
            [\<lparr>wid_type = WWT_OTHER 1, wid_left = 0, wid_right = 199, wid_top = 0, wid_bottom = 14\<rparr>,
             \<lparr>wid_type = WWT_SCROLL, wid_left = 0, wid_right = 100, wid_top = 20, wid_bottom = 120\<rparr>,
             \<lparr>wid_type = WWT_LAST, wid_left = 0, wid_right = 0, wid_top = 0, wid_bottom = 0\<rparr>],
          win_scrolls :=
            [\<lparr>scr_flags = {VSCROLLBAR_VISIBLE}, scr_h_left = 0, scr_h_right = 0,
              scr_h_thumb_left = 0, scr_h_thumb_right = 0, scr_v_top = 10, scr_v_bottom = 300,
              scr_v_thumb_top = 0, scr_v_thumb_bottom = 0\<rparr>]\<rparr>]"

text \<open>
  Halving an extent \<open>n\<close> times, as the zoom-in loop does in \<open>n\<close> rounds, and doubling it \<open>n\<close>
  times, as the zoom-out loop does; every round stores a \<^verbatim>\<open>sint16\<close>.
\<close>

fun halve_n :: "nat \<Rightarrow> int \<Rightarrow> int" where
  "halve_n 0 x = x"
| "halve_n (Suc n) x = halve_n n (s16 (cdiv x 2))"

fun double_n :: "nat \<Rightarrow> int \<Rightarrow> int" where
  "double_n 0 x = x"
| "double_n (Suc n) x = double_n n (s16 (x * 2))"

text \<open>
  The extent the two loops of \<^verbatim>\<open>window_zoom_set\<close> leave when they go from zoom \<open>z\<close> to \<open>L\<close>:
  halved once per step down, doubled once per step up.
\<close>

definition zoomed_extent :: "int \<Rightarrow> int \<Rightarrow> int \<Rightarrow> int" where
  "zoomed_extent L z x = (if z > L then halve_n (nat (z - L)) x else double_n (nat (L - z)) x)"



text \<open>
  The identity of an open window: classification and number (spec, section 3: a unique key
  while the window exists).
\<close>

definition window_key :: "rct_window \<Rightarrow> rct_windowclass \<times> nat" where
  "window_key w = (win_classification w, win_number w)"

text \<open>
  Close handlers that leave the window list as it is (they may change anything else). The
  null handler is one of them.
\<close>

definition close_keeps_list :: "env \<Rightarrow> bool" where
  "close_keeps_list E \<longleftrightarrow>
     (\<forall>h f w s. ev_close (handlers E h) = Some f \<longrightarrow> window_list (f w s) = window_list s)"

definition reserved_env :: "int \<Rightarrow> env" where
  "reserved_env limit_max =
     plain_env\<lparr>WINDOW_LIMIT_MIN := 1, WINDOW_LIMIT_MAX := limit_max, WINDOW_LIMIT_RESERVED := 2\<rparr>"

definition open_windows :: "nat \<Rightarrow> int \<Rightarrow> state" where
  "open_windows n limit =
     (plain_state (map (\<lambda>i. plain_window (WC_OTHER 7) i (int i * 10) 40 100 100) [0..<n]))
     \<lparr>window_limit := limit\<rparr>"


definition toolbar_window :: rct_window where
  "toolbar_window = (plain_window (WC_OTHER 1) 0 0 0 640 28)\<lparr>win_flags := {WF_STICK_TO_FRONT}\<rparr>"


definition main_window :: rct_window where
  "main_window = (plain_window WC_MAIN_WINDOW 0 0 0 640 480)\<lparr>win_flags := {WF_STICK_TO_BACK}\<rparr>"

text \<open>
  What the split and the paint loop read of a window: its rectangle and whether it is
  transparent. The layout of a state is this for every window of the list.
\<close>

definition geom :: "rct_window \<Rightarrow> int \<times> int \<times> int \<times> int \<times> bool" where
  "geom w = (win_x w, win_y w, win_width w, win_height w, WF_TRANSPARENT \<in> win_flags w)"

definition layout :: "state \<Rightarrow> (int \<times> int \<times> int \<times> int \<times> bool) list" where
  "layout s = map geom (window_list s)"

text \<open>Invalidate and paint handlers that leave the layout as it is.\<close>

definition handlers_keep_layout :: "env \<Rightarrow> bool" where
  "handlers_keep_layout E \<longleftrightarrow>
     (\<forall>h f w s. ev_invalidate (handlers E h) = Some f \<longrightarrow> layout (f w s) = layout s) \<and>
     (\<forall>h f w dpi s. ev_paint (handlers E h) = Some f \<longrightarrow> layout (f w dpi s) = layout s)"

text \<open>
  A paint call's surface lies within a region; and it is clear of a window when the two
  rectangles have no pixel in common.
\<close>

definition dpi_within :: "rct_drawpixelinfo \<Rightarrow> region \<Rightarrow> bool" where
  "dpi_within d rg =
     (case rg of (left, top_y, right, bottom) \<Rightarrow>
        left \<le> dpi_x d \<and> dpi_x d + dpi_width d \<le> right \<and>
        top_y \<le> dpi_y d \<and> dpi_y d + dpi_height d \<le> bottom)"

definition dpi_clear_of :: "rct_drawpixelinfo \<Rightarrow> rct_window \<Rightarrow> bool" where
  "dpi_clear_of d win \<longleftrightarrow>
     win_x win \<ge> dpi_x d + dpi_width d \<or> win_y win \<ge> dpi_y d + dpi_height d \<or>
     win_x win + win_width win \<le> dpi_x d \<or> win_y win + win_height win \<le> dpi_y d"

definition opaque_above :: "state \<Rightarrow> nat \<Rightarrow> nat \<Rightarrow> bool" where
  "opaque_above s w j \<longleftrightarrow>
     w < j \<and> j < length (window_list s) \<and> WF_TRANSPARENT \<notin> win_flags (window_list s ! j)"

definition paints_own_layer :: "state \<Rightarrow> nat \<Rightarrow> nat \<Rightarrow> bool" where
  "paints_own_layer s w u \<longleftrightarrow>
     w \<le> u \<and> u < length (window_list s) \<and>
     (u = w \<or> WF_TRANSPARENT \<in> win_flags (window_list s ! u))"

definition paint_ok :: "state \<Rightarrow> nat \<Rightarrow> region \<Rightarrow> nat \<times> rct_drawpixelinfo \<Rightarrow> bool" where
  "paint_ok s w rg e \<longleftrightarrow>
     dpi_within (snd e) rg \<and> paints_own_layer s w (fst e) \<and>
     (\<forall>j. opaque_above s w j \<longrightarrow> dpi_clear_of (snd e) (window_list s ! j))"

text \<open>
  Two regions that cut a region in two along one vertical or one horizontal line strictly
  inside it.
\<close>

definition splits_in_two :: "region \<Rightarrow> region \<Rightarrow> region \<Rightarrow> bool" where
  "splits_in_two rg a b =
     (case rg of (left, top_y, right, bottom) \<Rightarrow>
      case a of (l1, t1, r1, b1) \<Rightarrow>
      case b of (l2, t2, r2, b2) \<Rightarrow>
        l1 = left \<and> t1 = top_y \<and> r2 = right \<and> b2 = bottom \<and>
        ((b1 = bottom \<and> t2 = top_y \<and> l2 = r1 \<and> left < r1 \<and> r1 < right) \<or>
         (r1 = right \<and> l2 = left \<and> t2 = b1 \<and> top_y < b1 \<and> b1 < bottom)))"

text \<open>The scenario: window A at (0, 0) and opaque window B at (50, 50), both 100 by 100,
  B opened after A; and a render surface that covers the 640 by 480 screen.\<close>

definition overlap_state :: state where
  "overlap_state =
     plain_state [plain_window (WC_OTHER 1) 0 0 0 100 100,
                  plain_window (WC_OTHER 2) 0 50 50 100 100]"

definition overlap_seen :: state where
  "overlap_seen =
     plain_state [(plain_window (WC_OTHER 1) 0 0 0 100 100)\<lparr>win_visibility := VC_VISIBLE\<rparr>,
                  plain_window (WC_OTHER 2) 0 50 50 100 100]"

definition screen_dpi :: rct_drawpixelinfo where
  "screen_dpi =
     \<lparr>dpi_bits = 0, dpi_x = 0, dpi_y = 0, dpi_width = 640, dpi_height = 480, dpi_pitch = 0,
      dpi_zoom_level = 0\<rparr>"

definition left_strip_dpi :: rct_drawpixelinfo where
  "left_strip_dpi = screen_dpi\<lparr>dpi_width := 50, dpi_height := 100, dpi_pitch := 590\<rparr>"

definition top_strip_dpi :: rct_drawpixelinfo where
  "top_strip_dpi =
     screen_dpi\<lparr>dpi_bits := 50, dpi_x := 50, dpi_width := 50, dpi_height := 50, dpi_pitch := 590\<rparr>"

text \<open>The values a \<^verbatim>\<open>sint16\<close> holds; converting one of them changes nothing.\<close>

definition in_sint16 :: "int \<Rightarrow> bool" where
  "in_sint16 n \<longleftrightarrow> - 32768 \<le> n \<and> n \<le> 32767"

text \<open>
  A handler table with a close handler that moves the first window of the list to its end
  and sets the window limit to 99; and three windows of which the middle one owns viewport 3
  and has this table.
\<close>

definition rotating_env :: env where
  "rotating_env =
     plain_env\<lparr>handlers :=
       (\<lambda>h. if h = 1
            then no_handlers\<lparr>ev_close :=
                   Some (\<lambda>w s. s\<lparr>window_list := rotate1 (window_list s), window_limit := 99\<rparr>)\<rparr>
            else no_handlers)\<rparr>"

definition three_handled :: state where
  "three_handled =
     plain_state
       [plain_window WC_MAIN_WINDOW 0 0 0 640 480,
        (plain_window (WC_OTHER 7) 1 5 5 20 20)\<lparr>win_viewport := Some 3, win_event_handlers := 1\<rparr>,
        plain_window (WC_OTHER 7) 2 50 50 100 100]"

definition three_rotated :: state where
  "three_rotated =
     (plain_state
       [(plain_window (WC_OTHER 7) 1 5 5 20 20)\<lparr>win_viewport := Some 3, win_event_handlers := 1\<rparr>,
        plain_window (WC_OTHER 7) 2 50 50 100 100,
        plain_window WC_MAIN_WINDOW 0 0 0 640 480])\<lparr>window_limit := 99\<rparr>"

text \<open>
  The view extents of a viewport are its screen extents shifted left by its zoom level, as
  the code sets them up.
\<close>

definition view_matches_zoom :: "rct_viewport \<Rightarrow> bool" where
  "view_matches_zoom v \<longleftrightarrow>
     vp_view_width v = vp_width v * 2 ^ nat (vp_zoom v) \<and>
     vp_view_height v = vp_height v * 2 ^ nat (vp_zoom v)"

text \<open>
  A main window that fills a screen of the given size, with viewport 7 of the same size at
  the given zoom level.
\<close>

definition screen_main_window :: "int \<Rightarrow> int \<Rightarrow> nat \<Rightarrow> state" where
  "screen_main_window width height zoom =
     (plain_state
        [(plain_window WC_MAIN_WINDOW 0 0 0 width height)
           \<lparr>win_viewport := Some 7, win_flags := {WF_STICK_TO_BACK}\<rparr>])
     \<lparr>viewport_store :=
        (\<lambda>p. plain_viewport
           \<lparr>vp_width := width, vp_height := height, vp_zoom := int zoom,
            vp_view_width := width * 2 ^ zoom, vp_view_height := height * 2 ^ zoom\<rparr>)\<rparr>"

text \<open>
  The eviction as the specification describes it, on the list: each round takes the first
  window without a protection flag; protected windows are passed over and stay; a round that
  meets an unprotected window of the avoided class takes nothing, and so does every round
  after it.
\<close>

fun evict_surplus :: "rct_windowclass \<Rightarrow> nat \<Rightarrow> rct_window list \<Rightarrow> rct_window list" where
  "evict_surplus avoid 0 ws = ws"
| "evict_surplus avoid (Suc n) [] = []"
| "evict_surplus avoid (Suc n) (w # ws) =
     (if closable w then
        (if win_classification w = avoid then w # ws else evict_surplus avoid n ws)
      else w # evict_surplus avoid (Suc n) ws)"

text \<open>
  Five windows under a limit of 8: the main window (stick-to-back), three plain windows and
  the toolbar (stick-to-front).
\<close>

definition framed_windows :: state where
  "framed_windows =
     (plain_state
        [main_window, plain_window (WC_OTHER 7) 0 0 40 100 100,
         plain_window (WC_OTHER 7) 1 10 40 100 100, plain_window (WC_OTHER 7) 2 20 40 100 100,
         toolbar_window])\<lparr>window_limit := 8\<rparr>"






section \<open>Properties\<close>

lemma deref_Some: "w < length (window_list s) \<Longrightarrow> deref s w = Some (window_list s ! w)"
  by (simp add: deref_def)

lemma window_list_gfx [simp]: "window_list (gfx_set_dirty_blocks l t r b s) = window_list s"
  by (simp add: gfx_set_dirty_blocks_def)

lemma viewport_store_gfx [simp]:
  "viewport_store (gfx_set_dirty_blocks l t r b s) = viewport_store s"
  by (simp add: gfx_set_dirty_blocks_def)

lemma first_from_SomeD:
  "first_from P ws k = Some i \<Longrightarrow>
     k \<le> i \<and> i < length ws \<and> P (ws ! i) \<and> (\<forall>j. k \<le> j \<and> j < i \<longrightarrow> \<not> P (ws ! j))"
proof (induction P ws k rule: first_from.induct)
  case (1 P ws k)
  show ?case
  proof (cases "k < length ws \<and> \<not> P (ws ! k)")
    case True
    with "1.prems" have "first_from P ws (Suc k) = Some i"
      by (simp add: first_from.simps [of P ws k])
    with True "1.IH" have ih: "Suc k \<le> i \<and> i < length ws \<and> P (ws ! i) \<and>
        (\<forall>j. Suc k \<le> j \<and> j < i \<longrightarrow> \<not> P (ws ! j))"
      by simp
    have "\<not> P (ws ! j)" if "k \<le> j" "j < i" for j
      using that ih True by (cases "j = k") auto
    with ih show ?thesis by auto
  next
    case False
    with "1.prems" show ?thesis
      by (auto simp: first_from.simps [of P ws k] split: if_splits)
  qed
qed

lemma first_from_None_iff:
  "first_from P ws k = None \<longleftrightarrow> (\<forall>j. k \<le> j \<and> j < length ws \<longrightarrow> \<not> P (ws ! j))"
proof (induction P ws k rule: first_from.induct)
  case (1 P ws k)
  show ?case
  proof (cases "k < length ws")
    case False
    then show ?thesis by (auto simp: first_from.simps [of P ws k])
  next
    case True
    show ?thesis
    proof (cases "P (ws ! k)")
      case True
      with \<open>k < length ws\<close> show ?thesis
        by (auto simp: first_from.simps [of P ws k])
    next
      case False
      with True "1.IH" have "first_from P ws (Suc k) = None \<longleftrightarrow>
          (\<forall>j. Suc k \<le> j \<and> j < length ws \<longrightarrow> \<not> P (ws ! j))"
        by simp
      moreover have "(\<forall>j. Suc k \<le> j \<and> j < length ws \<longrightarrow> \<not> P (ws ! j)) \<longleftrightarrow>
          (\<forall>j. k \<le> j \<and> j < length ws \<longrightarrow> \<not> P (ws ! j))"
        using False by (metis Suc_leI le_neq_implies_less Suc_leD)
      ultimately show ?thesis
        using True False by (simp add: first_from.simps [of P ws k])
    qed
  qed
qed

lemma first_from_SomeI:
  assumes "k \<le> i" "i < length ws" "P (ws ! i)" "\<forall>j. k \<le> j \<and> j < i \<longrightarrow> \<not> P (ws ! j)"
  shows "first_from P ws k = Some i"
proof (cases "first_from P ws k")
  case None
  with assms show ?thesis by (auto simp: first_from_None_iff)
next
  case (Some i')
  from first_from_SomeD [OF Some] assms have "i' = i"
    by (metis linorder_neqE_nat less_imp_le_nat le_less_trans)
  with Some show ?thesis by simp
qed

lemma memmove_down_eq:
  "w < length ws \<Longrightarrow> memmove_down ws w = take w ws @ drop (Suc w) ws"
  by (auto simp: memmove_down_def list_eq_iff_nth_eq nth_append min_def)

lemma window_find_by_number_SomeD:
  "window_find_by_number cls number s = Some w \<Longrightarrow>
     w < length (window_list s) \<and> win_classification (window_list s ! w) = cls \<and>
     win_number (window_list s ! w) = number \<and>
     (\<forall>j < w. \<not> (win_classification (window_list s ! j) = cls \<and>
                  win_number (window_list s ! j) = number))"
  unfolding window_find_by_number_def
  by (drule first_from_SomeD) simp

lemma last_below_SomeD:
  "last_below P ws k = Some v \<Longrightarrow> v < k \<and> P (ws ! v) \<and> (\<forall>j. v < j \<and> j < k \<longrightarrow> \<not> P (ws ! j))"
proof (induction k)
  case 0
  then show ?case by simp
next
  case (Suc k)
  show ?case
  proof (cases "P (ws ! k)")
    case True
    with Suc.prems show ?thesis by auto
  next
    case False
    with Suc.prems have "last_below P ws k = Some v" by simp
    with Suc.IH have "v < k \<and> P (ws ! v) \<and> (\<forall>j. v < j \<and> j < k \<longrightarrow> \<not> P (ws ! j))"
      by simp
    with False show ?thesis
      by (auto simp: less_Suc_eq)
  qed
qed

lemma last_below_None_iff: "last_below P ws k = None \<longleftrightarrow> (\<forall>j < k. \<not> P (ws ! j))"
  by (induction k) (auto simp: less_Suc_eq)

lemma bring_to_front_swaps_nth:
  "w < v \<Longrightarrow> v < length ws \<Longrightarrow>
     \<exists>r. bring_to_front_swaps w v ws = Some r \<and> length r = length ws \<and>
         (\<forall>j < length ws.
            r ! j = (if w \<le> j \<and> j < v then ws ! Suc j else if j = v then ws ! w else ws ! j))"
proof (induction "v - w" arbitrary: w ws)
  case 0
  then show ?case by simp
next
  case (Suc d)
  let ?ws' = "ws[w := ws ! Suc w, Suc w := ws ! w]"
  from Suc.prems have sw: "Suc w < length ws" by simp
  show ?case
  proof (cases "Suc w = v")
    case True
    with sw have "bring_to_front_swaps w v ws = Some ?ws'"
      by (simp add: bring_to_front_swaps.simps [of w v ws])
    moreover have "\<forall>j < length ws.
        ?ws' ! j = (if w \<le> j \<and> j < v then ws ! Suc j else if j = v then ws ! w else ws ! j)"
      using True sw by (auto simp: nth_list_update)
    ultimately show ?thesis by simp
  next
    case False
    with Suc.prems have lt: "Suc w < v" by simp
    from Suc.hyps(2) lt have d: "d = v - Suc w" by simp
    have "v < length ?ws'" using Suc.prems by simp
    from Suc.hyps(1) [OF d lt this] obtain r where
      r: "bring_to_front_swaps (Suc w) v ?ws' = Some r" and len: "length r = length ws"
      and nth: "\<forall>j < length ws. r ! j =
          (if Suc w \<le> j \<and> j < v then ?ws' ! Suc j else if j = v then ?ws' ! Suc w else ?ws' ! j)"
      by (auto simp del: nth_list_update)
    from sw False r have "bring_to_front_swaps w v ws = Some r"
      by (simp add: bring_to_front_swaps.simps [of w v ws])
    moreover have "r ! j = (if w \<le> j \<and> j < v then ws ! Suc j else if j = v then ws ! w else ws ! j)"
      if "j < length ws" for j
      using nth [rule_format, OF that] that sw lt Suc.prems
      by (auto simp: nth_list_update)
    ultimately show ?thesis using len by simp
  qed
qed

lemma sticky_iff:
  "sticky w \<longleftrightarrow> WF_STICK_TO_BACK \<in> win_flags w \<or> WF_STICK_TO_FRONT \<in> win_flags w"
  by (auto simp: sticky_def)

lemma bring_to_front_move_result:
  assumes w0: "w0 < length (window_list s)"
    and nf: "WF_STICK_TO_FRONT \<notin> win_flags (window_list s ! w0)"
  shows "\<exists>v s1. bring_to_front_move w0 s = Some (v, s1) \<and> w0 \<le> v \<and> v < length (window_list s) \<and>
      WF_STICK_TO_FRONT \<notin> win_flags (window_list s ! v) \<and>
      (\<forall>j. v < j \<and> j < length (window_list s) \<longrightarrow>
           WF_STICK_TO_FRONT \<in> win_flags (window_list s ! j)) \<and>
      length (window_list s1) = length (window_list s) \<and>
      (\<forall>j < length (window_list s).
         window_list s1 ! j =
           (if w0 \<le> j \<and> j < v then window_list s ! Suc j
            else if j = v then window_list s ! w0 else window_list s ! j)) \<and>
      viewport_store s1 = viewport_store s"
proof -
  let ?P = "\<lambda>v. WF_STICK_TO_FRONT \<notin> win_flags v"
  let ?ws = "window_list s"
  from w0 nf have "last_below ?P ?ws (length ?ws) \<noteq> None"
    by (auto simp: last_below_None_iff)
  then obtain v where v: "last_below ?P ?ws (length ?ws) = Some v"
    by auto
  from last_below_SomeD [OF v] have vlt: "v < length ?ws" and pv: "?P (?ws ! v)"
    and after: "\<forall>j. v < j \<and> j < length ?ws \<longrightarrow> \<not> ?P (?ws ! j)"
    by auto
  from after w0 nf have le: "w0 \<le> v"
    by (meson not_le_imp_less)
  show ?thesis
  proof (cases "w0 = v")
    case True
    with v have "bring_to_front_move w0 s = Some (v, s)"
      by (simp add: bring_to_front_move_def)
    with True vlt pv after show ?thesis
      by auto
  next
    case False
    with le have lt: "w0 < v" by simp
    from bring_to_front_swaps_nth [OF lt vlt] obtain r where
      r: "bring_to_front_swaps w0 v ?ws = Some r" and len: "length r = length ?ws"
      and nth: "\<forall>j < length ?ws. r ! j =
          (if w0 \<le> j \<and> j < v then ?ws ! Suc j else if j = v then ?ws ! w0 else ?ws ! j)"
      by blast
    define s1 where "s1 = gfx_set_dirty_blocks (win_x (r ! v)) (win_y (r ! v))
        (win_x (r ! v) + win_width (r ! v)) (win_y (r ! v) + win_height (r ! v))
        (s\<lparr>window_list := r\<rparr>)"
    have "bring_to_front_move w0 s = Some (v, s1)"
      using v False r len vlt
      by (simp add: bring_to_front_move_def window_invalidate_def deref_def s1_def)
    moreover have "window_list s1 = r" "viewport_store s1 = viewport_store s"
      by (simp_all add: s1_def)
    ultimately show ?thesis
      using le vlt pv after len nth by auto
  qed
qed

lemma terminated_at_Cons:
  "terminated_at (widget # rest) n \<longleftrightarrow>
     (if wid_type widget = WWT_LAST then n = 0
      else \<exists>m. n = Suc m \<and> terminated_at rest m)"
proof (cases n)
  case 0
  then show ?thesis by (auto simp: terminated_at_def)
next
  case (Suc m)
  have "(\<forall>i < Suc m. wid_type ((widget # rest) ! i) \<noteq> WWT_LAST) \<longleftrightarrow>
      wid_type widget \<noteq> WWT_LAST \<and> (\<forall>i < m. wid_type (rest ! i) \<noteq> WWT_LAST)"
    by (auto simp: less_Suc_eq_0_disj)
  with Suc show ?thesis by (auto simp: terminated_at_def)
qed

lemma find_widget_loop_last_hit:
  "terminated_at widgets n \<Longrightarrow>
     \<exists>r. find_widget_loop w x y widgets i acc = Some r \<and>
       ((\<forall>k < n. \<not> widget_hit w x y (widgets ! k)) \<and> r = acc \<or>
        (\<exists>m < n. widget_hit w x y (widgets ! m) \<and>
           (\<forall>j. m < j \<and> j < n \<longrightarrow> \<not> widget_hit w x y (widgets ! j)) \<and> r = i + int m))"
proof (induction widgets arbitrary: n i acc)
  case Nil
  then show ?case by (simp add: terminated_at_def)
next
  case (Cons widget rest)
  show ?case
  proof (cases "wid_type widget = WWT_LAST")
    case True
    with Cons.prems have "n = 0" by (simp add: terminated_at_Cons)
    with True show ?thesis by simp
  next
    case False
    with Cons.prems obtain m where n: "n = Suc m" and t: "terminated_at rest m"
      by (auto simp: terminated_at_Cons)
    define acc' where "acc' = (if widget_hit w x y widget then i else acc)"
    have step: "find_widget_loop w x y (widget # rest) i acc =
        find_widget_loop w x y rest (i + 1) acc'"
      using False by (auto simp: acc'_def widget_hit_def widget_contains_def)
    from Cons.IH [OF t, of "i + 1" acc'] obtain r where
      r: "find_widget_loop w x y rest (i + 1) acc' = Some r"
      and cases: "(\<forall>k < m. \<not> widget_hit w x y (rest ! k)) \<and> r = acc' \<or>
        (\<exists>q < m. widget_hit w x y (rest ! q) \<and>
           (\<forall>j. q < j \<and> j < m \<longrightarrow> \<not> widget_hit w x y (rest ! j)) \<and> r = i + 1 + int q)"
      by blast
    from cases show ?thesis
    proof
      assume none: "(\<forall>k < m. \<not> widget_hit w x y (rest ! k)) \<and> r = acc'"
      show ?thesis
      proof (cases "widget_hit w x y widget")
        case True
        have "\<forall>j. 0 < j \<and> j < n \<longrightarrow> \<not> widget_hit w x y ((widget # rest) ! j)"
          using none n by (auto simp: nth_Cons')
        with True none n step r show ?thesis
          by (auto simp: acc'_def intro!: exI [of _ 0])
      next
        case False
        with none n have "\<forall>k < n. \<not> widget_hit w x y ((widget # rest) ! k)"
          by (auto simp: nth_Cons' )
        with False none step r show ?thesis
          by (auto simp: acc'_def)
      qed
    next
      assume "\<exists>q < m. widget_hit w x y (rest ! q) \<and>
           (\<forall>j. q < j \<and> j < m \<longrightarrow> \<not> widget_hit w x y (rest ! j)) \<and> r = i + 1 + int q"
      then obtain q where q: "q < m" "widget_hit w x y (rest ! q)"
        "\<forall>j. q < j \<and> j < m \<longrightarrow> \<not> widget_hit w x y (rest ! j)" "r = i + 1 + int q"
        by blast
      have "\<forall>j. Suc q < j \<and> j < n \<longrightarrow> \<not> widget_hit w x y ((widget # rest) ! j)"
      proof (intro allI impI)
        fix j assume j: "Suc q < j \<and> j < n"
        then obtain j' where "j = Suc j'" by (cases j) auto
        with j q(3) n show "\<not> widget_hit w x y ((widget # rest) ! j)" by auto
      qed
      moreover have "Suc q < n" "widget_hit w x y ((widget # rest) ! Suc q)" "r = i + int (Suc q)"
        using q n by auto
      ultimately show ?thesis
        using step r by auto
    qed
  qed
qed

lemma window_event_invalidate_call_eq:
  "w < length (window_list s) \<Longrightarrow>
     window_event_invalidate_call E w s = Some (invalidate_handler_result E w s)"
  by (simp add: window_event_invalidate_call_def invalidate_handler_result_def deref_def
        split: option.splits)

text \<open>
  C7. \<^verbatim>\<open>window_find_widget_from_point\<close> dispatches the window's invalidate event and reads
  the widget table of the state the handler leaves. With the terminator at index \<open>n\<close>, the
  result is -1 when no widget before the terminator is hit; otherwise it is the index \<open>m\<close>
  of the last widget before the terminator that is hit, and \<open>m + 1\<close> when that widget is of
  type \<^verbatim>\<open>WWT_DROPDOWN\<close>.
\<close>

theorem window_find_widget_from_point_last_hit:
  assumes w: "w < length (window_list s)"
    and w1: "w < length (window_list (invalidate_handler_result E w s))"
    and t: "terminated_at (win_widgets (window_list (invalidate_handler_result E w s) ! w)) n"
  shows "\<exists>r. window_find_widget_from_point E w x y s =
             Some (r, invalidate_handler_result E w s) \<and>
     ((\<forall>k < n. \<not> widget_hit (window_list (invalidate_handler_result E w s) ! w) x y
                   (win_widgets (window_list (invalidate_handler_result E w s) ! w) ! k)) \<and>
      r = -1 \<or>
      (\<exists>m < n.
         widget_hit (window_list (invalidate_handler_result E w s) ! w) x y
           (win_widgets (window_list (invalidate_handler_result E w s) ! w) ! m) \<and>
         (\<forall>j. m < j \<and> j < n \<longrightarrow>
            \<not> widget_hit (window_list (invalidate_handler_result E w s) ! w) x y
                (win_widgets (window_list (invalidate_handler_result E w s) ! w) ! j)) \<and>
         r = (if wid_type (win_widgets (window_list (invalidate_handler_result E w s) ! w) ! m)
                   = WWT_DROPDOWN
              then int m + 1 else int m)))"
proof -
  define s1 where "s1 = invalidate_handler_result E w s"
  define win where "win = window_list s1 ! w"
  from find_widget_loop_last_hit [OF t [folded s1_def win_def], of win x y 0 "-1"]
  obtain r0 where r0: "find_widget_loop win x y (win_widgets win) 0 (-1) = Some r0"
    and cases: "(\<forall>k < n. \<not> widget_hit win x y (win_widgets win ! k)) \<and> r0 = -1 \<or>
        (\<exists>m < n. widget_hit win x y (win_widgets win ! m) \<and>
           (\<forall>j. m < j \<and> j < n \<longrightarrow> \<not> widget_hit win x y (win_widgets win ! j)) \<and>
           r0 = 0 + int m)"
    by blast
  have run: "window_find_widget_from_point E w x y s =
      (if r0 \<noteq> -1 then
         (if wid_type (win_widgets win ! nat r0) = WWT_DROPDOWN
          then Some (r0 + 1, s1) else Some (r0, s1))
       else Some (r0, s1))"
    using w w1 r0
    by (simp add: window_find_widget_from_point_def window_event_invalidate_call_eq deref_def
          s1_def [symmetric] win_def [symmetric])
  from cases show ?thesis
  proof
    assume "(\<forall>k < n. \<not> widget_hit win x y (win_widgets win ! k)) \<and> r0 = -1"
    with run show ?thesis
      unfolding s1_def [symmetric] win_def [symmetric] by simp
  next
    assume "\<exists>m < n. widget_hit win x y (win_widgets win ! m) \<and>
           (\<forall>j. m < j \<and> j < n \<longrightarrow> \<not> widget_hit win x y (win_widgets win ! j)) \<and>
           r0 = 0 + int m"
    then obtain m where m: "m < n" "widget_hit win x y (win_widgets win ! m)"
      "\<forall>j. m < j \<and> j < n \<longrightarrow> \<not> widget_hit win x y (win_widgets win ! j)" "r0 = int m"
      by auto
    from m(4) run have "window_find_widget_from_point E w x y s =
        Some (if wid_type (win_widgets win ! m) = WWT_DROPDOWN then int m + 1 else int m, s1)"
      by simp
    with m show ?thesis
      unfolding s1_def [symmetric] win_def [symmetric] by blast
  qed
qed

theorem window_find_widget_from_point_last_hit_witness:
  "(0::nat) < length (window_list widget_window) \<and>
   0 < length (window_list (invalidate_handler_result plain_env 0 widget_window)) \<and>
   terminated_at
     (win_widgets (window_list (invalidate_handler_result plain_env 0 widget_window) ! 0)) 4 \<and>
   window_find_widget_from_point plain_env 0 120 125 widget_window = Some (3, widget_window)"
proof -
  have s1: "invalidate_handler_result plain_env 0 widget_window = widget_window"
    by (simp add: invalidate_handler_result_def plain_env_def no_handlers_def)
  have h1: "(0::nat) < length (window_list widget_window)"
    by (simp add: widget_window_def plain_state_def)
  have h2: "0 < length (window_list (invalidate_handler_result plain_env 0 widget_window))"
    unfolding s1 by (rule h1)
  have h3: "terminated_at
     (win_widgets (window_list (invalidate_handler_result plain_env 0 widget_window) ! 0)) 4"
    unfolding s1 terminated_at_def
    by (auto simp: widget_window_def plain_state_def plain_window_def less_Suc_eq nth_Cons'
          eval_nat_numeral)
  from window_find_widget_from_point_last_hit [OF h1 h2 h3, of 120 125]
  obtain r where run: "window_find_widget_from_point plain_env 0 120 125 widget_window =
      Some (r, widget_window)"
    and cases: "(\<forall>k < 4. \<not> widget_hit (window_list widget_window ! 0) 120 125
                   (win_widgets (window_list widget_window ! 0) ! k)) \<and> r = -1 \<or>
      (\<exists>m < 4.
         widget_hit (window_list widget_window ! 0) 120 125
           (win_widgets (window_list widget_window ! 0) ! m) \<and>
         (\<forall>j. m < j \<and> j < 4 \<longrightarrow>
            \<not> widget_hit (window_list widget_window ! 0) 120 125
                (win_widgets (window_list widget_window ! 0) ! j)) \<and>
         r = (if wid_type (win_widgets (window_list widget_window ! 0) ! m) = WWT_DROPDOWN
              then int m + 1 else int m))"
    unfolding s1 by blast
  have hit: "widget_hit (window_list widget_window ! 0) 120 125
      (win_widgets (window_list widget_window ! 0) ! k) \<longleftrightarrow> k = 2" if "k < 4" for k
    using that
    by (auto simp: widget_window_def plain_state_def plain_window_def widget_hit_def
          less_Suc_eq nth_Cons' eval_nat_numeral)
  from cases have "r = 3"
  proof
    assume "(\<forall>k < 4. \<not> widget_hit (window_list widget_window ! 0) 120 125
                   (win_widgets (window_list widget_window ! 0) ! k)) \<and> r = -1"
    with hit [of 2] show ?thesis by simp
  next
    assume "\<exists>m < 4.
         widget_hit (window_list widget_window ! 0) 120 125
           (win_widgets (window_list widget_window ! 0) ! m) \<and>
         (\<forall>j. m < j \<and> j < 4 \<longrightarrow>
            \<not> widget_hit (window_list widget_window ! 0) 120 125
                (win_widgets (window_list widget_window ! 0) ! j)) \<and>
         r = (if wid_type (win_widgets (window_list widget_window ! 0) ! m) = WWT_DROPDOWN
              then int m + 1 else int m)"
    then obtain m where m: "m < 4"
      "widget_hit (window_list widget_window ! 0) 120 125
           (win_widgets (window_list widget_window ! 0) ! m)"
      "r = (if wid_type (win_widgets (window_list widget_window ! 0) ! m) = WWT_DROPDOWN
              then int m + 1 else int m)"
      by blast
    from m(1,2) hit have "m = 2" by simp
    with m(3) show ?thesis
      by (simp add: widget_window_def plain_state_def plain_window_def eval_nat_numeral)
  qed
  with h1 h2 h3 run show ?thesis by simp
qed

lemma window_get_scroll_widget_loop_SomeD:
  "window_get_scroll_widget_loop widgets k0 si = Some (Some k) \<Longrightarrow>
     k0 \<le> k \<and> k - k0 < length widgets \<and> 0 \<le> si \<and>
     wid_type (widgets ! (k - k0)) = WWT_SCROLL \<and>
     (\<forall>j \<le> k - k0. wid_type (widgets ! j) \<noteq> WWT_LAST) \<and>
     int (length (filter (\<lambda>widget. wid_type widget = WWT_SCROLL) (take (k - k0) widgets))) = si"
proof (induction widgets arbitrary: k0 si)
  case Nil
  then show ?case by simp
next
  case (Cons widget rest)
  show ?case
  proof (cases "wid_type widget = WWT_SCROLL \<and> si = 0")
    case True
    with Cons.prems show ?thesis by simp
  next
    case False
    define si' where "si' = (if wid_type widget = WWT_SCROLL then si - 1 else si)"
    from Cons.prems False have nl: "wid_type widget \<noteq> WWT_LAST"
      by (auto split: if_splits)
    with Cons.prems False have rec: "window_get_scroll_widget_loop rest (Suc k0) si' = Some (Some k)"
      by (auto simp: si'_def split: if_splits)
    from Cons.IH [OF rec] have ih: "Suc k0 \<le> k" "k - Suc k0 < length rest" "0 \<le> si'"
      "wid_type (rest ! (k - Suc k0)) = WWT_SCROLL"
      "\<forall>j \<le> k - Suc k0. wid_type (rest ! j) \<noteq> WWT_LAST"
      "int (length (filter (\<lambda>widget. wid_type widget = WWT_SCROLL) (take (k - Suc k0) rest))) = si'"
      by auto
    from ih(1) obtain d where d: "k - k0 = Suc d" "k - Suc k0 = d"
      by (metis Suc_diff_Suc Suc_le_lessD diff_Suc_eq_diff_pred Suc_pred' zero_less_diff)
    have "\<forall>j \<le> k - k0. wid_type ((widget # rest) ! j) \<noteq> WWT_LAST"
      using ih(5) nl d by (auto simp: nth_Cons' le_Suc_eq)
    moreover have "int (length (filter (\<lambda>widget. wid_type widget = WWT_SCROLL)
        (take (k - k0) (widget # rest)))) = si"
      using ih(6) d by (auto simp: si'_def)
    moreover have "0 \<le> si"
      using ih(3) by (auto simp: si'_def split: if_splits)
    ultimately show ?thesis
      using ih d by auto
  qed
qed

lemma window_get_widget_index_loop_found:
  "k0 \<le> k \<Longrightarrow> k - k0 < length widgets \<Longrightarrow>
   (\<forall>j \<le> k - k0. wid_type (widgets ! j) \<noteq> WWT_LAST) \<Longrightarrow>
     window_get_widget_index_loop widgets k0 (Some k) = Some (int k)"
proof (induction widgets arbitrary: k0)
  case Nil
  then show ?case by simp
next
  case (Cons widget rest)
  from Cons.prems(3) have nl: "wid_type widget \<noteq> WWT_LAST"
    by (metis le0 nth_Cons_0)
  show ?case
  proof (cases "k = k0")
    case True
    with nl show ?thesis by simp
  next
    case False
    with Cons.prems(1) have lt: "Suc k0 \<le> k" by simp
    then obtain d where d: "k - k0 = Suc d" "k - Suc k0 = d"
      by (metis Suc_diff_Suc Suc_le_lessD diff_Suc_eq_diff_pred Suc_pred' zero_less_diff)
    have "\<forall>j \<le> k - Suc k0. wid_type (rest ! j) \<noteq> WWT_LAST"
    proof (intro allI impI)
      fix j assume "j \<le> k - Suc k0"
      with d have "Suc j \<le> k - k0" by simp
      with Cons.prems(3) have "wid_type ((widget # rest) ! Suc j) \<noteq> WWT_LAST" by blast
      then show "wid_type (rest ! j) \<noteq> WWT_LAST" by simp
    qed
    moreover from Cons.prems(2) d have "k - Suc k0 < length rest" by simp
    ultimately have "window_get_widget_index_loop rest (Suc k0) (Some k) = Some (int k)"
      using Cons.IH [OF lt] by simp
    with nl False show ?thesis by simp
  qed
qed

lemma nth_opt_Some: "0 \<le> i \<Longrightarrow> i < int (length xs) \<Longrightarrow> nth_opt xs i = Some (xs ! nat i)"
  by (simp add: nth_opt_def)

lemma update_thumbs_keeps [simp]:
  "scr_v_top (update_thumbs E widget scroll) = scr_v_top scroll"
  "scr_h_left (update_thumbs E widget scroll) = scr_h_left scroll"
  by (simp_all add: update_thumbs_def Let_def)

lemma widget_scroll_update_thumbs_keeps:
  assumes w: "w < length (window_list s)"
    and wi: "0 \<le> wi" "wi < int (length (win_widgets (window_list s ! w)))"
    and di: "window_get_scroll_data_index (window_list s ! w) wi = di"
      "di < int (length (win_scrolls (window_list s ! w)))"
  shows "\<exists>s'. widget_scroll_update_thumbs E w wi s = Some s' \<and>
      length (window_list s') = length (window_list s) \<and>
      win_widgets (window_list s' ! w) = win_widgets (window_list s ! w) \<and>
      length (win_scrolls (window_list s' ! w)) = length (win_scrolls (window_list s ! w)) \<and>
      scr_v_top (win_scrolls (window_list s' ! w) ! nat di) =
        scr_v_top (win_scrolls (window_list s ! w) ! nat di) \<and>
      scr_h_left (win_scrolls (window_list s' ! w) ! nat di) =
        scr_h_left (win_scrolls (window_list s ! w) ! nat di)"
proof -
  have d0: "0 \<le> di"
    using di(1) by (simp add: window_get_scroll_data_index_def)
  with di(2) have dn: "nat di < length (win_scrolls (window_list s ! w))"
    by simp
  show ?thesis
    using w wi di d0 dn
    by (simp add: widget_scroll_update_thumbs_def deref_def nth_opt_Some)
qed

lemma widget_invalidate_Some:
  "w < length (window_list s) \<Longrightarrow> 0 \<le> wi \<Longrightarrow>
   wi < int (length (win_widgets (window_list s ! w))) \<Longrightarrow>
     \<exists>s'. widget_invalidate w wi s = Some s' \<and> window_list s' = window_list s"
  by (simp add: widget_invalidate_def deref_def nth_opt_Some)

text \<open>
  C9. For a window of the list, a scroll index within \<^verbatim>\<open>scrolls\<close> and a widget table in which
  \<^verbatim>\<open>window_get_scroll_widget\<close> finds the scroll widget (at index \<open>k\<close>),
  \<^verbatim>\<open>window_scroll_wheel_input\<close> returns, and in the state it returns the offset it has written
  is within bounds, for every wheel value and every offset before: with the vertical
  scrollbar visible, \<open>0 \<le> v_top \<le> max 0 (v_bottom - size)\<close>, where \<open>size\<close> is the widget's
  height minus one, and minus 11 more when the horizontal scrollbar is visible too;
  otherwise \<open>0 \<le> h_left \<le> max 0 (h_right - size)\<close>, where \<open>size\<close> is the widget's width
  minus one.
\<close>

theorem window_scroll_wheel_input_in_range:
  assumes w: "w < length (window_list s)"
    and k: "window_get_scroll_widget (window_list s ! w) scrollIndex = Some (Some k)"
    and si: "scrollIndex < int (length (win_scrolls (window_list s ! w)))"
  shows "\<exists>s'. window_scroll_wheel_input E w scrollIndex wheel s = Some s' \<and>
     w < length (window_list s') \<and>
     nat scrollIndex < length (win_scrolls (window_list s' ! w)) \<and>
     (VSCROLLBAR_VISIBLE \<in> scr_flags (win_scrolls (window_list s ! w) ! nat scrollIndex) \<longrightarrow>
        0 \<le> scr_v_top (win_scrolls (window_list s' ! w) ! nat scrollIndex) \<and>
        scr_v_top (win_scrolls (window_list s' ! w) ! nat scrollIndex) \<le>
          max 0 (scr_v_bottom (win_scrolls (window_list s ! w) ! nat scrollIndex) -
                 (wid_bottom (win_widgets (window_list s ! w) ! k) -
                  wid_top (win_widgets (window_list s ! w) ! k) - 1 -
                  (if HSCROLLBAR_VISIBLE \<in>
                        scr_flags (win_scrolls (window_list s ! w) ! nat scrollIndex)
                   then 11 else 0)))) \<and>
     (VSCROLLBAR_VISIBLE \<notin> scr_flags (win_scrolls (window_list s ! w) ! nat scrollIndex) \<longrightarrow>
        0 \<le> scr_h_left (win_scrolls (window_list s' ! w) ! nat scrollIndex) \<and>
        scr_h_left (win_scrolls (window_list s' ! w) ! nat scrollIndex) \<le>
          max 0 (scr_h_right (win_scrolls (window_list s ! w) ! nat scrollIndex) -
                 (wid_right (win_widgets (window_list s ! w) ! k) -
                  wid_left (win_widgets (window_list s ! w) ! k) - 1)))"
proof -
  define win where "win = window_list s ! w"
  define scroll where "scroll = win_scrolls win ! nat scrollIndex"
  define widget where "widget = win_widgets win ! k"
  from k have loop: "window_get_scroll_widget_loop (win_widgets win) 0 scrollIndex = Some (Some k)"
    by (simp add: window_get_scroll_widget_def win_def)
  from window_get_scroll_widget_loop_SomeD [OF loop]
  have klt: "k < length (win_widgets win)" and s0: "0 \<le> scrollIndex"
    and nolast: "\<forall>j \<le> k. wid_type (win_widgets win ! j) \<noteq> WWT_LAST"
    and cnt: "int (length (filter (\<lambda>widget. wid_type widget = WWT_SCROLL)
                (take k (win_widgets win)))) = scrollIndex"
    by simp_all
  from si s0 have sn: "nat scrollIndex < length (win_scrolls win)"
    by (simp add: win_def)
  have idx: "window_get_widget_index win (Some k) = Some (int k)"
    unfolding window_get_widget_index_def
    using window_get_widget_index_loop_found [of 0 k "win_widgets win"] klt nolast by simp
  define scroll' where "scroll' =
     (if VSCROLLBAR_VISIBLE \<in> scr_flags scroll then
        scroll\<lparr>scr_v_top := min (max 0 (scr_v_top scroll + wheel))
           (max 0 (scr_v_bottom scroll -
              (if HSCROLLBAR_VISIBLE \<in> scr_flags scroll
               then wid_bottom widget - wid_top widget - 1 - 11
               else wid_bottom widget - wid_top widget - 1)))\<rparr>
      else
        scroll\<lparr>scr_h_left := min (max 0 (scr_h_left scroll + wheel))
           (max 0 (scr_h_right scroll - (wid_right widget - wid_left widget - 1)))\<rparr>)"
  define s1 where "s1 = s\<lparr>window_list := (window_list s)
       [w := win\<lparr>win_scrolls := (win_scrolls win)[nat scrollIndex := scroll']\<rparr>]\<rparr>"
  have run: "window_scroll_wheel_input E w scrollIndex wheel s =
      Option.bind (widget_scroll_update_thumbs E w (int k) s1) (widget_invalidate w (int k))"
    using w k idx s0 si
    by (simp add: window_scroll_wheel_input_def deref_def nth_opt_Some Let_def
          win_def [symmetric] scroll_def [symmetric] widget_def [symmetric] s1_def scroll'_def)
  have w1: "w < length (window_list s1)"
    and win1: "window_list s1 ! w = win\<lparr>win_scrolls := (win_scrolls win)[nat scrollIndex := scroll']\<rparr>"
    using w by (simp_all add: s1_def)
  have di1: "window_get_scroll_data_index (window_list s1 ! w) (int k) = scrollIndex"
    using cnt by (simp add: win1 window_get_scroll_data_index_def)
  from widget_scroll_update_thumbs_keeps [OF w1 _ _ di1, of E] klt si s0
  obtain s2 where th: "widget_scroll_update_thumbs E w (int k) s1 = Some s2"
    and len2: "length (window_list s2) = length (window_list s1)"
    and wid2: "win_widgets (window_list s2 ! w) = win_widgets (window_list s1 ! w)"
    and scl2: "length (win_scrolls (window_list s2 ! w)) = length (win_scrolls (window_list s1 ! w))"
    and vt2: "scr_v_top (win_scrolls (window_list s2 ! w) ! nat scrollIndex) =
        scr_v_top (win_scrolls (window_list s1 ! w) ! nat scrollIndex)"
    and hl2: "scr_h_left (win_scrolls (window_list s2 ! w) ! nat scrollIndex) =
        scr_h_left (win_scrolls (window_list s1 ! w) ! nat scrollIndex)"
    by (auto simp: win1 win_def)
  from widget_invalidate_Some [of w s2 "int k"] w1 len2 wid2 klt
  obtain s' where inv: "widget_invalidate w (int k) s2 = Some s'"
    and wl: "window_list s' = window_list s2"
    by (auto simp: win1)
  have res: "window_scroll_wheel_input E w scrollIndex wheel s = Some s'"
    using run th inv by simp
  have new: "win_scrolls (window_list s1 ! w) ! nat scrollIndex = scroll'"
    using sn by (simp add: win1)
  have vt: "scr_v_top (win_scrolls (window_list s' ! w) ! nat scrollIndex) = scr_v_top scroll'"
    and hl: "scr_h_left (win_scrolls (window_list s' ! w) ! nat scrollIndex) = scr_h_left scroll'"
    using vt2 hl2 new wl by simp_all
  have b1: "VSCROLLBAR_VISIBLE \<in> scr_flags scroll \<longrightarrow>
        0 \<le> scr_v_top scroll' \<and>
        scr_v_top scroll' \<le>
          max 0 (scr_v_bottom scroll -
                 (wid_bottom widget - wid_top widget - 1 -
                  (if HSCROLLBAR_VISIBLE \<in> scr_flags scroll then 11 else 0)))"
    by (simp add: scroll'_def)
  have b2: "VSCROLLBAR_VISIBLE \<notin> scr_flags scroll \<longrightarrow>
        0 \<le> scr_h_left scroll' \<and>
        scr_h_left scroll' \<le>
          max 0 (scr_h_right scroll - (wid_right widget - wid_left widget - 1))"
    by (simp add: scroll'_def)
  have "w < length (window_list s')"
    using wl len2 w1 by simp
  moreover have "nat scrollIndex < length (win_scrolls (window_list s' ! w))"
    using wl scl2 sn by (simp add: win1)
  ultimately show ?thesis
    using res b1 b2 unfolding vt [symmetric] hl [symmetric] scroll_def widget_def win_def
    by blast
qed

theorem window_scroll_wheel_input_in_range_witness:
  "(0::nat) < length (window_list scroll_window) \<and>
   window_get_scroll_widget (window_list scroll_window ! 0) 0 = Some (Some 1) \<and>
   (0::int) < int (length (win_scrolls (window_list scroll_window ! 0))) \<and>
   VSCROLLBAR_VISIBLE \<in> scr_flags (win_scrolls (window_list scroll_window ! 0) ! nat 0) \<and>
   (\<exists>s'. window_scroll_wheel_input plain_env 0 0 1000 scroll_window = Some s' \<and>
      0 \<le> scr_v_top (win_scrolls (window_list s' ! 0) ! nat 0) \<and>
      scr_v_top (win_scrolls (window_list s' ! 0) ! nat 0) \<le> 201)"
proof -
  have h1: "(0::nat) < length (window_list scroll_window)"
    by (simp add: scroll_window_def plain_state_def)
  have h2: "window_get_scroll_widget (window_list scroll_window ! 0) 0 = Some (Some 1)"
    by (simp add: window_get_scroll_widget_def scroll_window_def plain_state_def
          plain_window_def)
  have h3: "(0::int) < int (length (win_scrolls (window_list scroll_window ! 0)))"
    by (simp add: scroll_window_def plain_state_def plain_window_def)
  have h4: "VSCROLLBAR_VISIBLE \<in> scr_flags (win_scrolls (window_list scroll_window ! 0) ! nat 0)"
    by (simp add: scroll_window_def plain_state_def plain_window_def)
  from window_scroll_wheel_input_in_range [OF h1 h2 h3, of plain_env 1000]
  obtain s' where run: "window_scroll_wheel_input plain_env 0 0 1000 scroll_window = Some s'"
    and v: "VSCROLLBAR_VISIBLE \<in> scr_flags (win_scrolls (window_list scroll_window ! 0) ! nat 0) \<longrightarrow>
        0 \<le> scr_v_top (win_scrolls (window_list s' ! 0) ! nat 0) \<and>
        scr_v_top (win_scrolls (window_list s' ! 0) ! nat 0) \<le>
          max 0 (scr_v_bottom (win_scrolls (window_list scroll_window ! 0) ! nat 0) -
                 (wid_bottom (win_widgets (window_list scroll_window ! 0) ! 1) -
                  wid_top (win_widgets (window_list scroll_window ! 0) ! 1) - 1 -
                  (if HSCROLLBAR_VISIBLE \<in>
                        scr_flags (win_scrolls (window_list scroll_window ! 0) ! nat 0)
                   then 11 else 0)))"
    by blast
  have bound: "max 0 (scr_v_bottom (win_scrolls (window_list scroll_window ! 0) ! nat 0) -
                 (wid_bottom (win_widgets (window_list scroll_window ! 0) ! 1) -
                  wid_top (win_widgets (window_list scroll_window ! 0) ! 1) - 1 -
                  (if HSCROLLBAR_VISIBLE \<in>
                        scr_flags (win_scrolls (window_list scroll_window ! 0) ! nat 0)
                   then 11 else 0))) = 201"
    by (simp add: scroll_window_def plain_state_def plain_window_def)
  from v h4 have "0 \<le> scr_v_top (win_scrolls (window_list s' ! 0) ! nat 0) \<and>
      scr_v_top (win_scrolls (window_list s' ! 0) ! nat 0) \<le> 201"
    unfolding bound by blast
  with h1 h2 h3 h4 run show ?thesis
    by blast
qed

lemma cdiv_2_double [simp]: "cdiv (x * 2) 2 = x"
  by (simp add: cdiv_def sgn_if abs_mult)

lemma length_window_scroll_locations [simp]: "length window_scroll_locations = 17"
  by (simp add: window_scroll_locations_def)

lemma window_scroll_locations_0 [simp]: "window_scroll_locations ! 0 = (4, 4)"
  by (simp add: window_scroll_locations_def)






lemma length_layout [simp]: "length (layout s) = length (window_list s)"
  by (simp add: layout_def)

lemma layout_nth: "i < length (window_list s) \<Longrightarrow> layout s ! i = geom (window_list s ! i)"
  by (simp add: layout_def)

lemma layout_eq_geom:
  "layout s = layout s' \<Longrightarrow> i < length (window_list s) \<Longrightarrow>
     geom (window_list s ! i) = geom (window_list s' ! i)"
  by (metis layout_nth length_layout)

lemma layout_eq_length: "layout s = layout s' \<Longrightarrow> length (window_list s) = length (window_list s')"
  by (metis length_layout)

lemma overlaps_opaque_geom:
  "geom a = geom b \<Longrightarrow> overlaps_opaque l t r bo a = overlaps_opaque l t r bo b"
  by (auto simp: geom_def overlaps_opaque_def)

lemma split_at_geom: "geom a = geom b \<Longrightarrow> split_at a l t r bo = split_at b l t r bo"
  by (simp add: geom_def split_at_def)

lemma split_first_geom: "geom a = geom b \<Longrightarrow> split_first e a rg = split_first e b rg"
  by (simp add: geom_def split_first_def split: prod.splits split_edge.splits)

lemma split_second_geom: "geom a = geom b \<Longrightarrow> split_second e a rg = split_second e b rg"
  by (simp add: geom_def split_second_def split: prod.splits split_edge.splits)

lemma first_from_cong_nth:
  "length ws = length ws' \<Longrightarrow> (\<forall>i < length ws. P (ws ! i) = P (ws' ! i)) \<Longrightarrow>
     first_from P ws k = first_from P ws' k"
proof (induction P ws k rule: first_from.induct)
  case (1 P ws k)
  show ?case
  proof (cases "k < length ws \<and> \<not> P (ws ! k)")
    case True
    with "1.prems" have "first_from P ws (Suc k) = first_from P ws' (Suc k)"
      using "1.IH" by simp
    moreover from True "1.prems" have "\<not> P (ws' ! k)" "k < length ws'"
      by auto
    ultimately show ?thesis
      using True by (simp add: first_from.simps [of P ws k] first_from.simps [of P ws' k])
  next
    case False
    with "1.prems" show ?thesis
      by (auto simp: first_from.simps [of P ws k] first_from.simps [of P ws' k])
  qed
qed

lemma first_from_overlaps_layout:
  assumes "layout s = layout s'"
  shows "first_from (overlaps_opaque l t r bo) (window_list s) k =
     first_from (overlaps_opaque l t r bo) (window_list s') k"
proof (rule first_from_cong_nth)
  show "length (window_list s) = length (window_list s')"
    using assms by (rule layout_eq_length)
  show "\<forall>i < length (window_list s).
      overlaps_opaque l t r bo (window_list s ! i) = overlaps_opaque l t r bo (window_list s' ! i)"
    using assms by (auto intro!: overlaps_opaque_geom layout_eq_geom)
qed

lemma geom_visibility [simp]: "geom (win\<lparr>win_visibility := vc\<rparr>) = geom win"
  by (simp add: geom_def)

lemma layout_set_visibility [simp]: "layout (set_visibility w vc s) = layout s"
proof -
  have "map geom ((window_list s)[w := (window_list s ! w)\<lparr>win_visibility := vc\<rparr>]) =
      map geom (window_list s)"
    by (cases "w < length (window_list s)")
      (auto intro!: nth_equalityI simp: nth_list_update)
  then show ?thesis
    by (simp add: layout_def set_visibility_def)
qed

lemma layout_set_viewport_visibility [simp]: "layout (set_viewport_visibility p vc s) = layout s"
  by (simp add: layout_def set_viewport_visibility_def)

lemma window_is_visible_layout:
  assumes "w < length (window_list s)"
  shows "\<exists>vis s1. window_is_visible (Some w) s = Some (vis, s1) \<and> layout s1 = layout s"
  using assms
  by (auto simp: window_is_visible_def deref_def split: option.splits)

lemma invalidate_call_layout:
  assumes "handlers_keep_layout E" "w < length (window_list s)"
  shows "\<exists>s1. window_event_invalidate_call E w s = Some s1 \<and> layout s1 = layout s"
  using assms
  by (auto simp: window_event_invalidate_call_def deref_def handlers_keep_layout_def
        split: option.splits)

lemma paint_call_layout:
  assumes "handlers_keep_layout E" "w < length (window_list s)"
  shows "\<exists>s1. window_event_paint_call E w dpi s = Some s1 \<and> layout s1 = layout s"
  using assms
  by (auto simp: window_event_paint_call_def deref_def handlers_keep_layout_def
        split: option.splits)

lemma crop_dpi_within:
  "crop_dpi dpi0 l t r bo = Some d \<Longrightarrow>
     l \<le> dpi_x d \<and> dpi_x d + dpi_width d \<le> r \<and> t \<le> dpi_y d \<and> dpi_y d + dpi_height d \<le> bo"
  by (auto simp: crop_dpi_def Let_def split: if_splits bind_splits)

lemma window_draw_single_layout:
  assumes hk: "handlers_keep_layout E" and w: "w < length (window_list (fst st))"
  shows "\<exists>st'. window_draw_single E dpi w l t r bo st = Some st' \<and>
     layout (fst st') = layout (fst st) \<and>
     (snd st' = snd st \<or> (\<exists>d. crop_dpi dpi l t r bo = Some d \<and> snd st' = snd st @ [(w, d)]))"
proof (cases "crop_dpi dpi l t r bo")
  case None
  then show ?thesis
    by (simp add: window_draw_single_def)
next
  case (Some d)
  from invalidate_call_layout [OF hk w] obtain s1 where
    s1: "window_event_invalidate_call E w (fst st) = Some s1" "layout s1 = layout (fst st)"
    by blast
  from s1(2) w have "w < length (window_list s1)"
    by (metis length_layout)
  from paint_call_layout [OF hk this] obtain s2 where
    s2: "window_event_paint_call E w d s1 = Some s2" "layout s2 = layout s1"
    by blast
  from Some s1 s2 show ?thesis
    by (simp add: window_draw_single_def)
qed

lemma transparent_geom:
  "geom a = geom b \<Longrightarrow> WF_TRANSPARENT \<in> win_flags a \<longleftrightarrow> WF_TRANSPARENT \<in> win_flags b"
  by (simp add: geom_def)

lemma window_draw_paint_loop_layout:
  assumes hk: "handlers_keep_layout E"
  shows "layout (fst st) = layout s0 \<Longrightarrow> w \<le> v \<Longrightarrow>
     \<exists>st'. window_draw_paint_loop E dpi w v l t r bo st = Some st' \<and>
       layout (fst st') = layout s0 \<and>
       (\<exists>new. snd st' = snd st @ new \<and>
          (\<forall>e \<in> set new. dpi_within (snd e) (l, t, r, bo) \<and> v \<le> fst e \<and>
             paints_own_layer s0 w (fst e)))"
proof (induction "length (window_list s0) - v" arbitrary: v st)
  case 0
  then have "\<not> v < length (window_list (fst st))"
    by (metis length_layout diff_is_0_eq not_less)
  with 0(2) show ?case
    by (subst window_draw_paint_loop.simps) simp
next
  case (Suc n)
  note lay = Suc.prems(1) and wv = Suc.prems(2)
  from wv have wv': "w \<le> Suc v"
    by simp
  from Suc.hyps(2) have v: "v < length (window_list s0)" and n: "n = length (window_list s0) - Suc v"
    by simp_all
  from v lay have v': "v < length (window_list (fst st))"
    by (metis length_layout)
  let ?go = "w = v \<or> WF_TRANSPARENT \<in> win_flags (window_list (fst st) ! v)"
  show ?case
  proof (cases ?go)
    case False
    from Suc.hyps(1) [OF n lay wv'] obtain st' new where
      r: "window_draw_paint_loop E dpi w (Suc v) l t r bo st = Some st'"
         "layout (fst st') = layout s0" "snd st' = snd st @ new"
         "\<forall>e \<in> set new. dpi_within (snd e) (l, t, r, bo) \<and> Suc v \<le> fst e \<and>
             paints_own_layer s0 w (fst e)"
      by blast
    from r(4) have "\<forall>e \<in> set new. dpi_within (snd e) (l, t, r, bo) \<and> v \<le> fst e \<and>
             paints_own_layer s0 w (fst e)"
      by auto
    with r False v' show ?thesis
      by (subst window_draw_paint_loop.simps) simp
  next
    case True
    from lay v' have gv: "geom (window_list (fst st) ! v) = geom (window_list s0 ! v)"
      by (rule layout_eq_geom)
    from True transparent_geom [OF gv] v have own: "w \<le> v \<Longrightarrow> paints_own_layer s0 w v"
      by (auto simp: paints_own_layer_def)
    from window_is_visible_layout [OF v'] obtain vis s1 where
      vis: "window_is_visible (Some v) (fst st) = Some (vis, s1)" "layout s1 = layout (fst st)"
      by blast
    show ?thesis
    proof (cases vis)
      case False
      from vis lay have "layout (fst (s1, snd st)) = layout s0"
        by simp
      from Suc.hyps(1) [OF n this wv'] obtain st' new where
        r: "window_draw_paint_loop E dpi w (Suc v) l t r bo (s1, snd st) = Some st'"
           "layout (fst st') = layout s0" "snd st' = snd st @ new"
           "\<forall>e \<in> set new. dpi_within (snd e) (l, t, r, bo) \<and> Suc v \<le> fst e \<and>
               paints_own_layer s0 w (fst e)"
        by auto
      from r(4) have "\<forall>e \<in> set new. dpi_within (snd e) (l, t, r, bo) \<and> v \<le> fst e \<and>
               paints_own_layer s0 w (fst e)"
        by auto
      with r False True v' vis show ?thesis
        by (subst window_draw_paint_loop.simps) simp
    next
      case vt: True
      from vis v' have "v < length (window_list (fst (s1, snd st)))"
        by (metis fst_conv length_layout)
      from window_draw_single_layout [OF hk this, of dpi l t r bo] obtain st1 where
        st1: "window_draw_single E dpi v l t r bo (s1, snd st) = Some st1"
             "layout (fst st1) = layout s1"
             "snd st1 = snd st \<or>
                (\<exists>d. crop_dpi dpi l t r bo = Some d \<and> snd st1 = snd st @ [(v, d)])"
        by auto
      from st1(2) vis lay have "layout (fst st1) = layout s0"
        by simp
      from Suc.hyps(1) [OF n this wv'] obtain st' new where
        r: "window_draw_paint_loop E dpi w (Suc v) l t r bo st1 = Some st'"
           "layout (fst st') = layout s0" "snd st' = snd st1 @ new"
           "\<forall>e \<in> set new. dpi_within (snd e) (l, t, r, bo) \<and> Suc v \<le> fst e \<and>
               paints_own_layer s0 w (fst e)"
        by blast
      have run: "window_draw_paint_loop E dpi w v l t r bo st = Some st'"
        using r(1) st1(1) vt True v' vis
        by (subst window_draw_paint_loop.simps) simp
      from r(4) have rest: "\<forall>e \<in> set new. dpi_within (snd e) (l, t, r, bo) \<and> v \<le> fst e \<and>
               paints_own_layer s0 w (fst e)"
        by auto
      from st1(3) show ?thesis
      proof
        assume "snd st1 = snd st"
        with run r rest show ?thesis
          by auto
      next
        assume "\<exists>d. crop_dpi dpi l t r bo = Some d \<and> snd st1 = snd st @ [(v, d)]"
        then obtain d where d: "crop_dpi dpi l t r bo = Some d" "snd st1 = snd st @ [(v, d)]"
          by blast
        from crop_dpi_within [OF d(1)] have dw: "dpi_within d (l, t, r, bo)"
          by (simp add: dpi_within_def)
        from r(3) d(2) have "snd st' = snd st @ ((v, d) # new)"
          by simp
        moreover have "\<forall>e \<in> set ((v, d) # new). dpi_within (snd e) (l, t, r, bo) \<and> v \<le> fst e \<and>
               paints_own_layer s0 w (fst e)"
          using rest dw own [OF wv] by simp
        ultimately show ?thesis
          using run r(2) by blast
      qed
    qed
  qed
qed

lemma window_draw_invisible:
  assumes "window_is_visible (Some w) (fst st) = Some (False, s1)"
  shows "window_draw E dpi w l t r bo st = Some (s1, snd st)"
  using assms by (subst window_draw.simps) simp

lemma window_draw_covered:
  assumes "window_is_visible (Some w) (fst st) = Some (True, s1)"
    and "first_from (overlaps_opaque l t r bo) (window_list s1) (Suc w) = Some k"
    and "split_at (window_list s1 ! k) l t r bo = None"
  shows "window_draw E dpi w l t r bo st = Some (s1, snd st)"
  using assms by (subst window_draw.simps) simp

lemma window_draw_split_step:
  assumes "window_is_visible (Some w) (fst st) = Some (True, s1)"
    and "first_from (overlaps_opaque l t r bo) (window_list s1) (Suc w) = Some k"
    and "split_at (window_list s1 ! k) l t r bo = Some e"
    and "split_first e (window_list s1 ! k) (l, t, r, bo) = (l1, t1, r1, b1)"
  shows "window_draw E dpi w l t r bo st =
     Option.bind (window_draw E dpi w l1 t1 r1 b1 (s1, snd st)) (\<lambda>st1.
       Option.bind (deref (fst st1) k) (\<lambda>topwindow.
         (case split_second e topwindow (l, t, r, bo) of
            (l2, t2, r2, b2) \<Rightarrow> window_draw E dpi w l2 t2 r2 b2 st1)))"
  using assms
  by (subst window_draw.simps)
    (simp add: bind_assoc split_beta cong: Option.bind_cong)

lemma window_draw_leaf:
  assumes "window_is_visible (Some w) (fst st) = Some (True, s1)"
    and "first_from (overlaps_opaque l t r bo) (window_list s1) (Suc w) = None"
    and "deref s1 w = Some win"
  shows "window_draw E dpi w l t r bo st =
     (if max l (win_x win) \<ge> min r (win_x win + win_width win) then Some (s1, snd st)
      else if max t (win_y win) \<ge> min bo (win_y win + win_height win) then Some (s1, snd st)
      else window_draw_paint_loop E dpi w w (max l (win_x win)) (max t (win_y win))
             (min r (win_x win + win_width win)) (min bo (win_y win + win_height win))
             (s1, snd st))"
  using assms by (subst window_draw.simps) (simp add: Let_def)

lemma split_first_smaller:
  assumes "overlaps_opaque l t r bo win" and "split_at win l t r bo = Some e"
    and "split_first e win (l, t, r, bo) = (l1, t1, r1, b1)"
  shows "l \<le> l1 \<and> r1 \<le> r \<and> t \<le> t1 \<and> b1 \<le> bo \<and>
     nat (r1 - l1) + nat (b1 - t1) < nat (r - l) + nat (bo - t)"
  using assms
  by (auto simp: overlaps_opaque_def split_at_def split_first_def
        split: if_splits split_edge.splits)

lemma split_second_smaller:
  assumes "overlaps_opaque l t r bo win" and "split_at win l t r bo = Some e"
    and "split_second e win (l, t, r, bo) = (l2, t2, r2, b2)"
  shows "l \<le> l2 \<and> r2 \<le> r \<and> t \<le> t2 \<and> b2 \<le> bo \<and>
     nat (r2 - l2) + nat (b2 - t2) < nat (r - l) + nat (bo - t)"
  using assms
  by (auto simp: overlaps_opaque_def split_at_def split_second_def
        split: if_splits split_edge.splits)

lemma dpi_within_mono:
  "dpi_within d (l1, t1, r1, b1) \<Longrightarrow> l \<le> l1 \<Longrightarrow> r1 \<le> r \<Longrightarrow> t \<le> t1 \<Longrightarrow> b1 \<le> bo \<Longrightarrow>
     dpi_within d (l, t, r, bo)"
  by (simp add: dpi_within_def)

lemma paint_ok_mono:
  "paint_ok s w (l1, t1, r1, b1) e \<Longrightarrow> l \<le> l1 \<Longrightarrow> r1 \<le> r \<Longrightarrow> t \<le> t1 \<Longrightarrow> b1 \<le> bo \<Longrightarrow>
     paint_ok s w (l, t, r, bo) e"
  by (auto simp: paint_ok_def intro: dpi_within_mono)

lemma dpi_clear_of_no_overlap:
  assumes "dpi_within d (l, t, r, bo)" and "\<not> overlaps_opaque l t r bo win"
    and "WF_TRANSPARENT \<notin> win_flags win"
  shows "dpi_clear_of d win"
  using assms by (auto simp: dpi_within_def overlaps_opaque_def dpi_clear_of_def)

lemma window_draw_layout:
  assumes hk: "handlers_keep_layout E" and w: "w < length (window_list s0)"
  shows "nat (r - l) + nat (bo - t) = m \<Longrightarrow> layout (fst st) = layout s0 \<Longrightarrow>
     \<exists>st'. window_draw E dpi w l t r bo st = Some st' \<and> layout (fst st') = layout s0 \<and>
       (\<exists>new. snd st' = snd st @ new \<and> (\<forall>e \<in> set new. paint_ok s0 w (l, t, r, bo) e))"
proof (induction m arbitrary: l t r bo st rule: less_induct)
  case (less m)
  note IH = less.IH and m = less.prems(1) and lay = less.prems(2)
  from w lay have w': "w < length (window_list (fst st))"
    by (metis length_layout)
  from window_is_visible_layout [OF w'] obtain vis s1 where
    vis: "window_is_visible (Some w) (fst st) = Some (vis, s1)" and l1: "layout s1 = layout s0"
    using lay by auto
  from l1 have len1: "length (window_list s1) = length (window_list s0)"
    by (rule layout_eq_length)
  show ?case
  proof (cases vis)
    case False
    with vis have "window_draw E dpi w l t r bo st = Some (s1, snd st)"
      by (simp add: window_draw_invisible)
    with l1 show ?thesis
      by simp
  next
    case True
    with vis have vis': "window_is_visible (Some w) (fst st) = Some (True, s1)"
      by simp
    show ?thesis
    proof (cases "first_from (overlaps_opaque l t r bo) (window_list s1) (Suc w)")
      case None
      from w len1 have dw: "deref s1 w = Some (window_list s1 ! w)"
        by (simp add: deref_Some)
      let ?win = "window_list s1 ! w"
      let ?l = "max l (win_x ?win)" and ?t = "max t (win_y ?win)"
      let ?r = "min r (win_x ?win + win_width ?win)"
      let ?b = "min bo (win_y ?win + win_height ?win)"
      note leaf = window_draw_leaf [OF vis' None dw, where E = E and dpi = dpi]
      show ?thesis
      proof (cases "?l \<ge> ?r \<or> ?t \<ge> ?b")
        case True
        with leaf have "window_draw E dpi w l t r bo st = Some (s1, snd st)"
          by auto
        with l1 show ?thesis
          by simp
      next
        case False
        with leaf have run: "window_draw E dpi w l t r bo st =
            window_draw_paint_loop E dpi w w ?l ?t ?r ?b (s1, snd st)"
          by auto
        from l1 have lay1: "layout (fst (s1, snd st)) = layout s0"
          by simp
        from window_draw_paint_loop_layout
          [where w = w and v = w and dpi = dpi and l = ?l and t = ?t and r = ?r and bo = ?b,
            OF hk lay1 order_refl]
        obtain st' new where
          lp: "window_draw_paint_loop E dpi w w ?l ?t ?r ?b (s1, snd st) = Some st'"
              "layout (fst st') = layout s0" "snd st' = snd st @ new"
              "\<forall>e \<in> set new. dpi_within (snd e) (?l, ?t, ?r, ?b) \<and> w \<le> fst e \<and>
                 paints_own_layer s0 w (fst e)"
          by auto
        have "paint_ok s0 w (l, t, r, bo) e" if e: "e \<in> set new" for e
        proof -
          from lp(4) e have in': "dpi_within (snd e) (?l, ?t, ?r, ?b)"
            and own: "paints_own_layer s0 w (fst e)"
            by auto
          from in' have within: "dpi_within (snd e) (l, t, r, bo)"
            by (rule dpi_within_mono) simp_all
          have "dpi_clear_of (snd e) (window_list s0 ! j)" if j: "opaque_above s0 w j" for j
          proof -
            from j have jb: "Suc w \<le> j" "j < length (window_list s1)"
              and op: "WF_TRANSPARENT \<notin> win_flags (window_list s0 ! j)"
              using len1 by (simp_all add: opaque_above_def)
            from None jb have no: "\<not> overlaps_opaque l t r bo (window_list s1 ! j)"
              by (simp add: first_from_None_iff)
            from l1 jb(2) have "geom (window_list s1 ! j) = geom (window_list s0 ! j)"
              by (rule layout_eq_geom)
            from overlaps_opaque_geom [OF this, of l t r bo] no
            have "\<not> overlaps_opaque l t r bo (window_list s0 ! j)"
              by simp
            from within this op show ?thesis
              by (rule dpi_clear_of_no_overlap)
          qed
          with within own show ?thesis
            by (simp add: paint_ok_def)
        qed
        with run lp show ?thesis
          by simp
      qed
    next
      case (Some k)
      from first_from_SomeD [OF Some] have k: "k < length (window_list s1)"
        and ov: "overlaps_opaque l t r bo (window_list s1 ! k)"
        by simp_all
      let ?top = "window_list s1 ! k"
      show ?thesis
      proof (cases "split_at ?top l t r bo")
        case None
        from window_draw_covered [OF vis' Some None]
        have "window_draw E dpi w l t r bo st = Some (s1, snd st)" .
        with l1 show ?thesis
          by simp
      next
        case (Some e)
        note sp = Some
        obtain l1' t1' r1' b1' where
          f: "split_first e ?top (l, t, r, bo) = (l1', t1', r1', b1')"
          by (cases "split_first e ?top (l, t, r, bo)") blast
        obtain l2' t2' r2' b2' where
          g: "split_second e ?top (l, t, r, bo) = (l2', t2', r2', b2')"
          by (cases "split_second e ?top (l, t, r, bo)") blast
        note b1 = split_first_smaller [OF ov sp f]
        note b2 = split_second_smaller [OF ov sp g]
        from b1 m have m1: "nat (r1' - l1') + nat (b1' - t1') < m"
          by simp
        from b2 m have m2: "nat (r2' - l2') + nat (b2' - t2') < m"
          by simp
        from l1 have "layout (fst (s1, snd st)) = layout s0"
          by simp
        from IH [OF m1 refl this] obtain st1 new1 where
          d1: "window_draw E dpi w l1' t1' r1' b1' (s1, snd st) = Some st1"
              "layout (fst st1) = layout s0" "snd st1 = snd st @ new1"
              "\<forall>e \<in> set new1. paint_ok s0 w (l1', t1', r1', b1') e"
          by auto
        from IH [OF m2 refl d1(2)] obtain st2 new2 where
          d2: "window_draw E dpi w l2' t2' r2' b2' st1 = Some st2"
              "layout (fst st2) = layout s0" "snd st2 = snd st1 @ new2"
              "\<forall>e \<in> set new2. paint_ok s0 w (l2', t2', r2', b2') e"
          by auto
        from d1(2) l1 have l11: "layout s1 = layout (fst st1)"
          by simp
        from k l11 have k1: "k < length (window_list (fst st1))"
          by (metis length_layout)
        from l11 k have "geom (window_list s1 ! k) = geom (window_list (fst st1) ! k)"
          by (rule layout_eq_geom)
        from split_second_geom [OF this] g
        have g1: "split_second e (window_list (fst st1) ! k) (l, t, r, bo) = (l2', t2', r2', b2')"
          by simp
        from window_draw_split_step
          [OF vis' \<open>first_from _ _ _ = Some k\<close> sp f, where E = E and dpi = dpi]
        have run: "window_draw E dpi w l t r bo st = Some st2"
          using d1(1) d2(1) k1 g1 by (simp add: deref_Some)
        have ok1: "paint_ok s0 w (l, t, r, bo) e" if "e \<in> set new1" for e
          using d1(4) that b1 paint_ok_mono [of s0 w l1' t1' r1' b1' e l r t bo] by simp
        have ok2: "paint_ok s0 w (l, t, r, bo) e" if "e \<in> set new2" for e
          using d2(4) that b2 paint_ok_mono [of s0 w l2' t2' r2' b2' e l r t bo] by simp
        from d1(3) d2(3) have "snd st2 = snd st @ (new1 @ new2)"
          by simp
        moreover from ok1 ok2 have "\<forall>e \<in> set (new1 @ new2). paint_ok s0 w (l, t, r, bo) e"
          by auto
        ultimately show ?thesis
          using run d2(2) by blast
      qed
    qed
  qed
qed

lemma split_in_two:
  assumes "overlaps_opaque l t r bo win" and "split_at win l t r bo = Some e"
  shows "splits_in_two (l, t, r, bo) (split_first e win (l, t, r, bo))
     (split_second e win (l, t, r, bo))"
  using assms
  by (auto simp: overlaps_opaque_def split_at_def split_first_def split_second_def
        splits_in_two_def split: if_splits split_edge.splits)

lemma window_draw_two_halves:
  assumes hk: "handlers_keep_layout E"
    and w: "w < length (window_list s)"
    and vis: "window_is_visible (Some w) s = Some (True, s1)"
    and occ: "first_from (overlaps_opaque l t r bo) (window_list s) (Suc w) = Some k"
    and sp: "split_at (window_list s ! k) l t r bo = Some e"
    and f: "split_first e (window_list s ! k) (l, t, r, bo) = (l1, t1, r1, b1)"
    and g: "split_second e (window_list s ! k) (l, t, r, bo) = (l2, t2, r2, b2)"
  shows "window_draw E dpi w l t r bo (s, tr) =
     Option.bind (window_draw E dpi w l1 t1 r1 b1 (s1, tr)) (window_draw E dpi w l2 t2 r2 b2)"
proof -
  from window_is_visible_layout [OF w] vis have lay: "layout s1 = layout s"
    by auto
  from first_from_overlaps_layout [OF lay, of l t r bo "Suc w"] occ
  have occ1: "first_from (overlaps_opaque l t r bo) (window_list s1) (Suc w) = Some k"
    by simp
  from first_from_SomeD [OF occ1] have k: "k < length (window_list s1)"
    by simp
  from lay k have gk: "geom (window_list s1 ! k) = geom (window_list s ! k)"
    by (rule layout_eq_geom)
  from split_at_geom [OF gk, of l t r bo] sp
  have sp1: "split_at (window_list s1 ! k) l t r bo = Some e"
    by simp
  from split_first_geom [OF gk, of e "(l, t, r, bo)"] f
  have f1: "split_first e (window_list s1 ! k) (l, t, r, bo) = (l1, t1, r1, b1)"
    by simp
  have vis': "window_is_visible (Some w) (fst (s, tr)) = Some (True, s1)"
    using vis by simp
  note step = window_draw_split_step [OF vis' occ1 sp1 f1, where E = E and dpi = dpi]
  from lay have "layout (fst (s1, tr)) = layout s"
    by simp
  from window_draw_layout
    [OF hk w refl this, where r = r1 and l = l1 and bo = b1 and t = t1 and dpi = dpi] obtain st1 where
    d1: "window_draw E dpi w l1 t1 r1 b1 (s1, tr) = Some st1" "layout (fst st1) = layout s"
    by blast
  from d1(2) lay k have k1: "k < length (window_list (fst st1))"
    by (metis length_layout)
  from d1(2) k1 have "geom (window_list (fst st1) ! k) = geom (window_list s ! k)"
    by (rule layout_eq_geom)
  from split_second_geom [OF this, of e "(l, t, r, bo)"] g
  have g1: "split_second e (window_list (fst st1) ! k) (l, t, r, bo) = (l2, t2, r2, b2)"
    by simp
  from step d1(1) k1 g1 show ?thesis
    by (simp add: deref_Some)
qed

lemma window_draw_covered_region:
  assumes w: "w < length (window_list s)"
    and vis: "window_is_visible (Some w) s = Some (True, s1)"
    and occ: "first_from (overlaps_opaque l t r bo) (window_list s) (Suc w) = Some k"
    and sp: "split_at (window_list s ! k) l t r bo = None"
  shows "window_draw E dpi w l t r bo (s, tr) = Some (s1, tr)"
proof -
  from window_is_visible_layout [OF w] vis have lay: "layout s1 = layout s"
    by auto
  from first_from_overlaps_layout [OF lay, of l t r bo "Suc w"] occ
  have occ1: "first_from (overlaps_opaque l t r bo) (window_list s1) (Suc w) = Some k"
    by simp
  from first_from_SomeD [OF occ1] have k: "k < length (window_list s1)"
    by simp
  from lay k have gk: "geom (window_list s1 ! k) = geom (window_list s ! k)"
    by (rule layout_eq_geom)
  from split_at_geom [OF gk, of l t r bo] sp
  have sp1: "split_at (window_list s1 ! k) l t r bo = None"
    by simp
  have vis': "window_is_visible (Some w) (fst (s, tr)) = Some (True, s1)"
    using vis by simp
  from window_draw_covered [OF vis' occ1 sp1, where E = E and dpi = dpi] show ?thesis
    by simp
qed

text \<open>
  C1, amended. Let the invalidate and paint handlers leave every window's rectangle and
  transparency as they are, let \<open>w\<close> be a window of the list that \<^verbatim>\<open>window_is_visible\<close> reports
  visible, and let \<open>k\<close> be the first window above \<open>w\<close> that overlaps the region and is not
  transparent. Then \<^verbatim>\<open>window_draw\<close> returns, and every paint call it issues is for \<open>w\<close> or a
  transparent window above it, with a surface inside the region that has no pixel in common
  with any non-transparent window above \<open>w\<close>. When an edge of the occluder lies strictly
  inside the region (its left edge, else its right, else its top, else its bottom), the draw
  is the draw of the part before that edge followed by the draw of the part after it, two
  regions that cut the region in two. When no edge does, the occluder covers the region and
  the draw returns without splitting and without a paint call.
\<close>

theorem window_draw_splits_at_first_occluder:
  assumes hk: "handlers_keep_layout E"
    and w: "w < length (window_list s)"
    and vis: "window_is_visible (Some w) s = Some (True, s1)"
    and occ: "first_from (overlaps_opaque l t r bo) (window_list s) (Suc w) = Some k"
  shows "(\<exists>s' new. window_draw E dpi w l t r bo (s, tr) = Some (s', tr @ new) \<and>
            (\<forall>e \<in> set new. paint_ok s w (l, t, r, bo) e)) \<and>
     (case split_at (window_list s ! k) l t r bo of
        None \<Rightarrow> window_draw E dpi w l t r bo (s, tr) = Some (s1, tr)
      | Some e \<Rightarrow>
          splits_in_two (l, t, r, bo) (split_first e (window_list s ! k) (l, t, r, bo))
            (split_second e (window_list s ! k) (l, t, r, bo)) \<and>
          (case split_first e (window_list s ! k) (l, t, r, bo) of
             (l1, t1, r1, b1) \<Rightarrow>
               (case split_second e (window_list s ! k) (l, t, r, bo) of
                  (l2, t2, r2, b2) \<Rightarrow>
                    window_draw E dpi w l t r bo (s, tr) =
                      Option.bind (window_draw E dpi w l1 t1 r1 b1 (s1, tr))
                        (window_draw E dpi w l2 t2 r2 b2))))"
proof (rule conjI)
  have "layout (fst (s, tr)) = layout s"
    by simp
  from window_draw_layout
    [OF hk w refl this, where r = r and l = l and bo = bo and t = t and dpi = dpi]
  show "\<exists>s' new. window_draw E dpi w l t r bo (s, tr) = Some (s', tr @ new) \<and>
            (\<forall>e \<in> set new. paint_ok s w (l, t, r, bo) e)"
    by auto
next
  from first_from_SomeD [OF occ] have ov: "overlaps_opaque l t r bo (window_list s ! k)"
    by simp
  show "case split_at (window_list s ! k) l t r bo of
        None \<Rightarrow> window_draw E dpi w l t r bo (s, tr) = Some (s1, tr)
      | Some e \<Rightarrow>
          splits_in_two (l, t, r, bo) (split_first e (window_list s ! k) (l, t, r, bo))
            (split_second e (window_list s ! k) (l, t, r, bo)) \<and>
          (case split_first e (window_list s ! k) (l, t, r, bo) of
             (l1, t1, r1, b1) \<Rightarrow>
               (case split_second e (window_list s ! k) (l, t, r, bo) of
                  (l2, t2, r2, b2) \<Rightarrow>
                    window_draw E dpi w l t r bo (s, tr) =
                      Option.bind (window_draw E dpi w l1 t1 r1 b1 (s1, tr))
                        (window_draw E dpi w l2 t2 r2 b2)))"
  proof (cases "split_at (window_list s ! k) l t r bo")
    case None
    from window_draw_covered_region [OF w vis occ None] None show ?thesis
      by simp
  next
    case (Some e)
    obtain l1 t1 r1 b1 where f: "split_first e (window_list s ! k) (l, t, r, bo) = (l1, t1, r1, b1)"
      by (cases "split_first e (window_list s ! k) (l, t, r, bo)") blast
    obtain l2 t2 r2 b2 where g: "split_second e (window_list s ! k) (l, t, r, bo) = (l2, t2, r2, b2)"
      by (cases "split_second e (window_list s ! k) (l, t, r, bo)") blast
    from split_in_two [OF ov Some]
    have "splits_in_two (l, t, r, bo) (l1, t1, r1, b1) (l2, t2, r2, b2)"
      by (simp add: f g)
    with window_draw_two_halves [OF hk w vis occ Some f g, where dpi = dpi and tr = tr] Some f g show ?thesis
      by simp
  qed
qed

lemma plain_env_keeps_layout: "handlers_keep_layout plain_env"
  by (simp add: handlers_keep_layout_def plain_env_def no_handlers_def)

lemma overlap_state_visible:
  "window_is_visible (Some 0) overlap_state = Some (True, overlap_seen)"
  by (simp add: window_is_visible_def deref_def overlap_state_def overlap_seen_def
      plain_state_def plain_window_def set_visibility_def)

lemma overlap_seen_visible:
  "window_is_visible (Some 0) (fst (overlap_seen, tr)) = Some (True, overlap_seen)"
  by (simp add: window_is_visible_def deref_def overlap_seen_def plain_state_def
      plain_window_def)

lemma overlap_seen_deref:
  "deref overlap_seen 0 =
     Some ((plain_window (WC_OTHER 1) 0 0 0 100 100)\<lparr>win_visibility := VC_VISIBLE\<rparr>)"
  by (simp add: deref_def overlap_seen_def plain_state_def)

lemma overlap_seen_occluder:
  "first_from (overlaps_opaque l t r bo) (window_list overlap_seen) (Suc 0) =
     (if overlaps_opaque l t r bo (plain_window (WC_OTHER 2) 0 50 50 100 100) then Some 1
      else None)"
  by (simp add: first_from.simps overlap_seen_def plain_state_def)

lemma overlap_state_occluder:
  "first_from (overlaps_opaque l t r bo) (window_list overlap_state) (Suc 0) =
     (if overlaps_opaque l t r bo (plain_window (WC_OTHER 2) 0 50 50 100 100) then Some 1
      else None)"
  by (simp add: first_from.simps overlap_state_def plain_state_def)

lemma overlap_seen_second [simp]:
  "window_list overlap_seen ! Suc 0 = plain_window (WC_OTHER 2) 0 50 50 100 100"
  by (simp add: overlap_seen_def plain_state_def)

lemma overlap_state_second [simp]:
  "window_list overlap_state ! Suc 0 = plain_window (WC_OTHER 2) 0 50 50 100 100"
  by (simp add: overlap_state_def plain_state_def)

lemma overlap_paint_loop:
  assumes "crop_dpi screen_dpi l t r bo = Some d"
  shows "window_draw_paint_loop plain_env screen_dpi 0 0 l t r bo (overlap_seen, tr) =
     Some (overlap_seen, tr @ [(0, d)])"
proof -
  have e2: "window_draw_paint_loop plain_env screen_dpi 0 (Suc (Suc 0)) l t r bo (overlap_seen, tr') =
      Some (overlap_seen, tr')" for tr'
    by (subst window_draw_paint_loop.simps) (simp add: overlap_seen_def plain_state_def)
  have e1: "window_draw_paint_loop plain_env screen_dpi 0 (Suc 0) l t r bo (overlap_seen, tr') =
      Some (overlap_seen, tr')" for tr'
    by (subst window_draw_paint_loop.simps)
      (simp add: e2, simp add: overlap_seen_def plain_state_def plain_window_def)
  have single: "window_draw_single plain_env screen_dpi 0 l t r bo (overlap_seen, tr) =
      Some (overlap_seen, tr @ [(0, d)])"
    using assms
    by (simp add: window_draw_single_def window_event_invalidate_call_def
        window_event_paint_call_def overlap_seen_deref plain_env_def no_handlers_def)
  have len: "0 < length (window_list (fst (overlap_seen, tr)))"
    by (simp add: overlap_seen_def plain_state_def)
  show ?thesis
    using len overlap_seen_visible [of tr] single
    by (subst window_draw_paint_loop.simps) (simp add: e1)
qed

lemma crop_left_strip: "crop_dpi screen_dpi 0 0 50 100 = Some left_strip_dpi"
  by (simp add: crop_dpi_def screen_dpi_def left_strip_dpi_def Let_def)

lemma crop_top_strip: "crop_dpi screen_dpi 50 0 100 50 = Some top_strip_dpi"
  by (simp add: crop_dpi_def screen_dpi_def top_strip_dpi_def Let_def)

lemma overlap_draw_left_strip:
  "window_draw plain_env screen_dpi 0 0 0 50 480 (overlap_seen, tr) =
     Some (overlap_seen, tr @ [(0, left_strip_dpi)])"
proof -
  have "first_from (overlaps_opaque 0 0 50 480) (window_list overlap_seen) (Suc 0) = None"
    by (simp add: overlap_seen_occluder overlaps_opaque_def plain_window_def)
  from window_draw_leaf [OF overlap_seen_visible this overlap_seen_deref,
      where E = plain_env and dpi = screen_dpi and tr1 = tr]
  show ?thesis
    by (simp add: plain_window_def overlap_paint_loop [OF crop_left_strip])
qed

lemma overlap_draw_top_strip:
  "window_draw plain_env screen_dpi 0 50 0 150 50 (overlap_seen, tr) =
     Some (overlap_seen, tr @ [(0, top_strip_dpi)])"
proof -
  have "first_from (overlaps_opaque 50 0 150 50) (window_list overlap_seen) (Suc 0) = None"
    by (simp add: overlap_seen_occluder overlaps_opaque_def plain_window_def)
  from window_draw_leaf [OF overlap_seen_visible this overlap_seen_deref,
      where E = plain_env and dpi = screen_dpi and tr1 = tr]
  show ?thesis
    by (simp add: plain_window_def overlap_paint_loop [OF crop_top_strip])
qed

lemma overlap_draw_below:
  "window_draw plain_env screen_dpi 0 50 150 150 480 (overlap_seen, tr) = Some (overlap_seen, tr)"
proof -
  have "first_from (overlaps_opaque 50 150 150 480) (window_list overlap_seen) (Suc 0) = None"
    by (simp add: overlap_seen_occluder overlaps_opaque_def plain_window_def)
  from window_draw_leaf [OF overlap_seen_visible this overlap_seen_deref,
      where E = plain_env and dpi = screen_dpi and tr1 = tr]
  show ?thesis
    by (simp add: plain_window_def)
qed

lemma overlap_draw_right:
  "window_draw plain_env screen_dpi 0 150 0 640 480 (overlap_seen, tr) = Some (overlap_seen, tr)"
proof -
  have "first_from (overlaps_opaque 150 0 640 480) (window_list overlap_seen) (Suc 0) = None"
    by (simp add: overlap_seen_occluder overlaps_opaque_def plain_window_def)
  from window_draw_leaf [OF overlap_seen_visible this overlap_seen_deref,
      where E = plain_env and dpi = screen_dpi and tr1 = tr]
  show ?thesis
    by (simp add: plain_window_def)
qed

lemma overlap_draw_behind:
  "window_draw plain_env screen_dpi 0 50 50 150 150 (overlap_seen, tr) = Some (overlap_seen, tr)"
proof -
  have occ: "first_from (overlaps_opaque 50 50 150 150) (window_list overlap_seen) (Suc 0) = Some 1"
    by (simp add: overlap_seen_occluder overlaps_opaque_def plain_window_def)
  have "split_at (window_list overlap_seen ! 1) 50 50 150 150 = None"
    by (simp add: split_at_def plain_window_def)
  from window_draw_covered [OF overlap_seen_visible occ this,
      where E = plain_env and dpi = screen_dpi and tr1 = tr]
  show ?thesis
    by simp
qed

lemma overlap_draw_lower:
  "window_draw plain_env screen_dpi 0 50 50 150 480 (overlap_seen, tr) = Some (overlap_seen, tr)"
proof -
  have occ: "first_from (overlaps_opaque 50 50 150 480) (window_list overlap_seen) (Suc 0) = Some 1"
    by (simp add: overlap_seen_occluder overlaps_opaque_def plain_window_def)
  have sp: "split_at (window_list overlap_seen ! 1) 50 50 150 480 = Some SplitBottom"
    by (simp add: split_at_def plain_window_def)
  have f: "split_first SplitBottom (window_list overlap_seen ! 1) (50, 50, 150, 480) =
      (50, 50, 150, 150)"
    by (simp add: split_first_def plain_window_def)
  have len: "1 < length (window_list overlap_seen)"
    by (simp add: overlap_seen_def plain_state_def)
  from window_draw_split_step [OF overlap_seen_visible occ sp f,
      where E = plain_env and dpi = screen_dpi and tr1 = tr] len
  show ?thesis
    by (simp add: overlap_draw_behind deref_def split_second_def plain_window_def
        overlap_draw_below)
qed

lemma overlap_draw_middle:
  "window_draw plain_env screen_dpi 0 50 0 150 480 (overlap_seen, tr) =
     Some (overlap_seen, tr @ [(0, top_strip_dpi)])"
proof -
  have occ: "first_from (overlaps_opaque 50 0 150 480) (window_list overlap_seen) (Suc 0) = Some 1"
    by (simp add: overlap_seen_occluder overlaps_opaque_def plain_window_def)
  have sp: "split_at (window_list overlap_seen ! 1) 50 0 150 480 = Some SplitTop"
    by (simp add: split_at_def plain_window_def)
  have f: "split_first SplitTop (window_list overlap_seen ! 1) (50, 0, 150, 480) =
      (50, 0, 150, 50)"
    by (simp add: split_first_def plain_window_def)
  have len: "1 < length (window_list overlap_seen)"
    by (simp add: overlap_seen_def plain_state_def)
  from window_draw_split_step [OF overlap_seen_visible occ sp f,
      where E = plain_env and dpi = screen_dpi and tr1 = tr] len
  show ?thesis
    by (simp add: overlap_draw_top_strip deref_def split_second_def plain_window_def
        overlap_draw_lower)
qed

lemma overlap_draw_rest:
  "window_draw plain_env screen_dpi 0 50 0 640 480 (overlap_seen, tr) =
     Some (overlap_seen, tr @ [(0, top_strip_dpi)])"
proof -
  have occ: "first_from (overlaps_opaque 50 0 640 480) (window_list overlap_seen) (Suc 0) = Some 1"
    by (simp add: overlap_seen_occluder overlaps_opaque_def plain_window_def)
  have sp: "split_at (window_list overlap_seen ! 1) 50 0 640 480 = Some SplitRight"
    by (simp add: split_at_def plain_window_def)
  have f: "split_first SplitRight (window_list overlap_seen ! 1) (50, 0, 640, 480) =
      (50, 0, 150, 480)"
    by (simp add: split_first_def plain_window_def)
  have len: "1 < length (window_list overlap_seen)"
    by (simp add: overlap_seen_def plain_state_def)
  from window_draw_split_step [OF overlap_seen_visible occ sp f,
      where E = plain_env and dpi = screen_dpi and tr1 = tr] len
  show ?thesis
    by (simp add: overlap_draw_middle deref_def split_second_def plain_window_def
        overlap_draw_right)
qed

text \<open>
  C1 as stated fails where the occluder covers the region. In the scenario, the region
  (50, 50, 150, 150) is not degenerate and window B, above A and not transparent, overlaps
  it; no edge of B lies strictly inside the region, so no branch of the if-chain is taken:
  \<^verbatim>\<open>window_draw\<close> returns without splitting, without a recursive call and without a paint
  call.
\<close>

theorem window_draw_covered_counterexample:
  "(50::int) < 150 \<and>
   first_from (overlaps_opaque 50 50 150 150) (window_list overlap_state) (Suc 0) = Some 1 \<and>
   split_at (window_list overlap_state ! 1) 50 50 150 150 = None \<and>
   window_draw plain_env screen_dpi 0 50 50 150 150 (overlap_state, []) =
     Some (overlap_seen, [])"
proof -
  have occ: "first_from (overlaps_opaque 50 50 150 150) (window_list overlap_state) (Suc 0) =
      Some 1"
    by (simp add: overlap_state_occluder overlaps_opaque_def plain_window_def)
  have sp: "split_at (window_list overlap_state ! 1) 50 50 150 150 = None"
    by (simp add: split_at_def plain_window_def)
  have w: "0 < length (window_list overlap_state)"
    by (simp add: overlap_state_def plain_state_def)
  from window_draw_covered_region [OF w overlap_state_visible occ sp] occ sp show ?thesis
    by simp
qed

theorem window_draw_splits_at_first_occluder_witness:
  "handlers_keep_layout plain_env \<and>
   0 < length (window_list overlap_state) \<and>
   window_is_visible (Some 0) overlap_state = Some (True, overlap_seen) \<and>
   first_from (overlaps_opaque 0 0 640 480) (window_list overlap_state) (Suc 0) = Some 1 \<and>
   split_at (window_list overlap_state ! 1) 0 0 640 480 = Some SplitLeft \<and>
   splits_in_two (0, 0, 640, 480) (0, 0, 50, 480) (50, 0, 640, 480) \<and>
   window_draw plain_env screen_dpi 0 0 0 640 480 (overlap_state, []) =
     Option.bind (window_draw plain_env screen_dpi 0 0 0 50 480 (overlap_seen, []))
       (window_draw plain_env screen_dpi 0 50 0 640 480) \<and>
   window_draw plain_env screen_dpi 0 0 0 640 480 (overlap_state, []) =
     Some (overlap_seen, [(0, left_strip_dpi), (0, top_strip_dpi)]) \<and>
   paint_ok overlap_state 0 (0, 0, 640, 480) (0, left_strip_dpi) \<and>
   paint_ok overlap_state 0 (0, 0, 640, 480) (0, top_strip_dpi) \<and>
   dpi_clear_of left_strip_dpi (window_list overlap_state ! 1) \<and>
   dpi_clear_of top_strip_dpi (window_list overlap_state ! 1)"
proof -
  have w: "0 < length (window_list overlap_state)"
    by (simp add: overlap_state_def plain_state_def)
  have occ: "first_from (overlaps_opaque 0 0 640 480) (window_list overlap_state) (Suc 0) =
      Some 1"
    by (simp add: overlap_state_occluder overlaps_opaque_def plain_window_def)
  have sp: "split_at (window_list overlap_state ! 1) 0 0 640 480 = Some SplitLeft"
    by (simp add: split_at_def plain_window_def)
  have f: "split_first SplitLeft (window_list overlap_state ! 1) (0, 0, 640, 480) =
      (0, 0, 50, 480)"
    by (simp add: split_first_def plain_window_def)
  have g: "split_second SplitLeft (window_list overlap_state ! 1) (0, 0, 640, 480) =
      (50, 0, 640, 480)"
    by (simp add: split_second_def plain_window_def)
  note T = window_draw_splits_at_first_occluder
    [OF plain_env_keeps_layout w overlap_state_visible occ,
      where dpi = screen_dpi and tr = "[]"]
  from T sp f g
  have two: "splits_in_two (0, 0, 640, 480) (0, 0, 50, 480) (50, 0, 640, 480)"
    and eq: "window_draw plain_env screen_dpi 0 0 0 640 480 (overlap_state, []) =
      Option.bind (window_draw plain_env screen_dpi 0 0 0 50 480 (overlap_seen, []))
        (window_draw plain_env screen_dpi 0 50 0 640 480)"
    by simp_all
  from eq have run: "window_draw plain_env screen_dpi 0 0 0 640 480 (overlap_state, []) =
      Some (overlap_seen, [(0, left_strip_dpi), (0, top_strip_dpi)])"
    by (simp add: overlap_draw_left_strip overlap_draw_rest)
  from T obtain s' new where
    n: "window_draw plain_env screen_dpi 0 0 0 640 480 (overlap_state, []) = Some (s', [] @ new)"
       "\<forall>e \<in> set new. paint_ok overlap_state 0 (0, 0, 640, 480) e"
    by blast
  from n(1) run have "new = [(0, left_strip_dpi), (0, top_strip_dpi)]"
    by simp
  with n(2) have ok: "paint_ok overlap_state 0 (0, 0, 640, 480) (0, left_strip_dpi)"
    "paint_ok overlap_state 0 (0, 0, 640, 480) (0, top_strip_dpi)"
    by simp_all
  have "opaque_above overlap_state 0 1"
    by (simp add: opaque_above_def overlap_state_def plain_state_def plain_window_def)
  with ok have clear: "dpi_clear_of left_strip_dpi (window_list overlap_state ! 1)"
    "dpi_clear_of top_strip_dpi (window_list overlap_state ! 1)"
    by (auto simp: paint_ok_def)
  from plain_env_keeps_layout w overlap_state_visible occ sp two eq run ok clear
  show ?thesis
    by simp
qed

lemma s16_id: "in_sint16 n \<Longrightarrow> s16 n = n"
  by (simp add: s16_def in_sint16_def)

lemma in_sint16_s16 [simp]: "in_sint16 (s16 n)"
  by (simp add: s16_def in_sint16_def)

text \<open>
  C10, amended. \<^verbatim>\<open>window_move_position(w, 0, 0)\<close> returns the state as it is (no field
  changes, no call of the invalidation entry point). With a non-zero delta and a valid window
  it returns a state in which \<open>w\<close>'s x and y are the old values plus \<open>dx\<close> and \<open>dy\<close>, converted
  to \<^verbatim>\<open>sint16\<close>: moved by exactly \<open>dx\<close> and \<open>dy\<close> when the sums are \<^verbatim>\<open>sint16\<close> values, wrapped
  around otherwise. The viewport \<open>w\<close> points to (if any) has its x and y changed in the same
  way, \<open>w\<close>'s width, height, flags and widgets are as before, every other window of the list
  and every other viewport is unchanged, and the old and the new screen rectangle of \<open>w\<close> have
  been invalidated.
\<close>

theorem window_move_position_frame:
  "window_move_position w 0 0 s = Some s \<and>
   (w < length (window_list s) \<longrightarrow> (dx \<noteq> 0 \<or> dy \<noteq> 0) \<longrightarrow>
     (\<exists>s'. window_move_position w dx dy s = Some s' \<and>
        length (window_list s') = length (window_list s) \<and>
        window_list s' ! w =
          (window_list s ! w)\<lparr>win_x := s16 (win_x (window_list s ! w) + dx),
                               win_y := s16 (win_y (window_list s ! w) + dy)\<rparr> \<and>
        (in_sint16 (win_x (window_list s ! w) + dx) \<longrightarrow>
           win_x (window_list s' ! w) = win_x (window_list s ! w) + dx) \<and>
        (in_sint16 (win_y (window_list s ! w) + dy) \<longrightarrow>
           win_y (window_list s' ! w) = win_y (window_list s ! w) + dy) \<and>
        win_width (window_list s' ! w) = win_width (window_list s ! w) \<and>
        win_height (window_list s' ! w) = win_height (window_list s ! w) \<and>
        win_flags (window_list s' ! w) = win_flags (window_list s ! w) \<and>
        win_widgets (window_list s' ! w) = win_widgets (window_list s ! w) \<and>
        (\<forall>j. j \<noteq> w \<longrightarrow> j < length (window_list s) \<longrightarrow>
              window_list s' ! j = window_list s ! j) \<and>
        (case win_viewport (window_list s ! w) of
           None \<Rightarrow> viewport_store s' = viewport_store s
         | Some p \<Rightarrow>
             viewport_store s' p =
               (viewport_store s p)\<lparr>vp_x := s16 (vp_x (viewport_store s p) + dx),
                                     vp_y := s16 (vp_y (viewport_store s p) + dy)\<rparr> \<and>
             (in_sint16 (vp_x (viewport_store s p) + dx) \<longrightarrow>
                vp_x (viewport_store s' p) = vp_x (viewport_store s p) + dx) \<and>
             (in_sint16 (vp_y (viewport_store s p) + dy) \<longrightarrow>
                vp_y (viewport_store s' p) = vp_y (viewport_store s p) + dy) \<and>
             (\<forall>q. q \<noteq> p \<longrightarrow> viewport_store s' q = viewport_store s q)) \<and>
        window_limit s' = window_limit s \<and>
        spare_slots s' = spare_slots s \<and>
        dirty_blocks s' = dirty_blocks s @
          [(win_x (window_list s ! w), win_y (window_list s ! w),
            win_x (window_list s ! w) + win_width (window_list s ! w),
            win_y (window_list s ! w) + win_height (window_list s ! w)),
           (s16 (win_x (window_list s ! w) + dx), s16 (win_y (window_list s ! w) + dy),
            s16 (win_x (window_list s ! w) + dx) + win_width (window_list s ! w),
            s16 (win_y (window_list s ! w) + dy) + win_height (window_list s ! w))]))"
  by (auto simp: window_move_position_def window_invalidate_def deref_def
        gfx_set_dirty_blocks_def Let_def s16_id split: option.splits)

theorem window_move_position_frame_witness:
  "(0::nat) < length (window_list (plain_state [plain_window WC_MAIN_WINDOW 0 10 20 30 40])) \<and>
   (5::int) \<noteq> 0 \<and>
   in_sint16 (win_x (window_list (plain_state [plain_window WC_MAIN_WINDOW 0 10 20 30 40]) ! 0)
     + 5) \<and>
   (\<exists>s'. window_move_position 0 5 0 (plain_state [plain_window WC_MAIN_WINDOW 0 10 20 30 40])
            = Some s' \<and>
         win_x (window_list s' ! 0) = 15 \<and>
         window_list s' ! 0 = plain_window WC_MAIN_WINDOW 0 15 20 30 40 \<and>
         dirty_blocks s' = [(10, 20, 40, 60), (15, 20, 45, 60)])"
proof -
  let ?s = "plain_state [plain_window WC_MAIN_WINDOW 0 10 20 30 40]"
  have h1: "(0::nat) < length (window_list ?s)"
    by (simp add: plain_state_def)
  have h2: "(5::int) \<noteq> 0 \<or> (0::int) \<noteq> 0"
    by simp
  have h4: "in_sint16 (win_x (window_list ?s ! 0) + 5)"
    by (simp add: in_sint16_def plain_state_def plain_window_def)
  from window_move_position_frame [of 0 ?s 5 0, THEN conjunct2, rule_format, OF h1 h2]
  obtain s' where a: "window_move_position 0 5 0 ?s = Some s'"
    and b: "window_list s' ! 0 =
          (window_list ?s ! 0)\<lparr>win_x := s16 (win_x (window_list ?s ! 0) + 5),
                               win_y := s16 (win_y (window_list ?s ! 0) + 0)\<rparr>"
    and x: "in_sint16 (win_x (window_list ?s ! 0) + 5) \<longrightarrow>
           win_x (window_list s' ! 0) = win_x (window_list ?s ! 0) + 5"
    and c: "dirty_blocks s' = dirty_blocks ?s @
          [(win_x (window_list ?s ! 0), win_y (window_list ?s ! 0),
            win_x (window_list ?s ! 0) + win_width (window_list ?s ! 0),
            win_y (window_list ?s ! 0) + win_height (window_list ?s ! 0)),
           (s16 (win_x (window_list ?s ! 0) + 5), s16 (win_y (window_list ?s ! 0) + 0),
            s16 (win_x (window_list ?s ! 0) + 5) + win_width (window_list ?s ! 0),
            s16 (win_y (window_list ?s ! 0) + 0) + win_height (window_list ?s ! 0))]"
    by blast
  from x h4 have x': "win_x (window_list s' ! 0) = 15"
    by (simp add: plain_state_def plain_window_def)
  have b': "window_list s' ! 0 = plain_window WC_MAIN_WINDOW 0 15 20 30 40"
    using b by (simp add: plain_state_def plain_window_def s16_def)
  have c': "dirty_blocks s' = [(10, 20, 40, 60), (15, 20, 45, 60)]"
    using c by (simp add: plain_state_def plain_window_def s16_def)
  have h3: "(5::int) \<noteq> 0"
    by simp
  from h1 h3 h4 a x' b' c' show ?thesis
    by blast
qed

text \<open>
  C10 as stated fails where a position leaves the range of its field: a window at x = 32760
  moved by \<open>dx\<close> = 10 is at x = -32766 afterwards, not at 32770.
\<close>

theorem window_move_position_counterexample:
  "\<exists>s'. win_x (window_list (plain_state [plain_window WC_MAIN_WINDOW 0 32760 20 30 40]) ! 0)
           = 32760 \<and>
      window_move_position 0 10 0 (plain_state [plain_window WC_MAIN_WINDOW 0 32760 20 30 40])
        = Some s' \<and>
      win_x (window_list s' ! 0) = - 32766"
  by (simp add: window_move_position_def window_invalidate_def deref_def
        gfx_set_dirty_blocks_def Let_def plain_state_def plain_window_def s16_def)

lemma window_event_close_call_eq:
  "window_event_close_call E w s = Some (close_handler_result E w s)"
  by (simp add: window_event_close_call_def close_handler_result_def split: option.splits)

lemma detach_None: "win_viewport x = None \<Longrightarrow> x\<lparr>win_viewport := None\<rparr> = x"
  by (cases x) simp

lemma window_close_found:
  assumes s1: "s1 = close_handler_result E w0 s"
    and f: "window_find_by_number (win_classification (slot_read s w0))
              (win_number (slot_read s w0)) s1 = Some w"
  shows "window_close E (Some w0) s =
     Some (s1\<lparr>window_list := take w (window_list s1) @ drop (Suc w) (window_list s1),
              viewport_store :=
                (case win_viewport (window_list s1 ! w) of
                   None \<Rightarrow> viewport_store s1
                 | Some p \<Rightarrow> (viewport_store s1)(p := (viewport_store s1 p)\<lparr>vp_width := 0\<rparr>)),
              dirty_blocks := dirty_blocks s1 @ [window_rect (window_list s1 ! w)],
              spare_slots := (spare_slots s1)
                (length (window_list s1) - 1 :=
                   (if w = length (window_list s1) - 1
                    then (window_list s1 ! w)\<lparr>win_viewport := None\<rparr>
                    else window_list s1 ! (length (window_list s1) - 1)))\<rparr>)"
proof -
  from window_find_by_number_SomeD [OF f] have w: "w < length (window_list s1)"
    by simp
  show ?thesis
  proof (cases "win_viewport (window_list s1 ! w)")
    case None
    from None have same: "(window_list s1 ! w)\<lparr>win_viewport := None\<rparr> = window_list s1 ! w"
      by (rule detach_None)
    have "window_list s1 ! (length (window_list s1) - 1) =
        (if w = length (window_list s1) - 1
         then (window_list s1 ! w)\<lparr>win_viewport := None\<rparr>
         else window_list s1 ! (length (window_list s1) - 1))"
      unfolding same by simp
    then have sp: "(spare_slots s1)
        (length (window_list s1) - 1 := window_list s1 ! (length (window_list s1) - 1)) =
      (spare_slots s1)
        (length (window_list s1) - 1 :=
           (if w = length (window_list s1) - 1
            then (window_list s1 ! w)\<lparr>win_viewport := None\<rparr>
            else window_list s1 ! (length (window_list s1) - 1)))"
      by (simp only:)
    have "window_close E (Some w0) s =
      Some (s1\<lparr>window_list := take w (window_list s1) @ drop (Suc w) (window_list s1),
              dirty_blocks := dirty_blocks s1 @ [window_rect (window_list s1 ! w)],
              spare_slots := (spare_slots s1)
                (length (window_list s1) - 1 :=
                   window_list s1 ! (length (window_list s1) - 1))\<rparr>)"
      using None w f s1
      by (simp add: window_close_def window_event_close_call_eq deref_def
          window_invalidate_def gfx_set_dirty_blocks_def memmove_down_eq window_rect_def
          Let_def)
    then show ?thesis
      unfolding sp using None by simp
  next
    case (Some p)
    with w f s1 show ?thesis
      by (simp add: window_close_def window_event_close_call_eq deref_def
          window_invalidate_def gfx_set_dirty_blocks_def memmove_down_eq window_rect_def
          take_update_cancel drop_update_cancel Let_def nth_list_update)
  qed
qed

lemma window_close_not_found:
  assumes s1: "s1 = close_handler_result E w0 s"
    and f: "window_find_by_number (win_classification (slot_read s w0))
              (win_number (slot_read s w0)) s1 = None"
  shows "window_close E (Some w0) s = Some s1"
  using assms by (simp add: window_close_def window_event_close_call_eq)

text \<open>
  C2. \<^verbatim>\<open>window_close(nullptr)\<close> changes nothing. Otherwise the close handler of the window
  runs first: \<open>s1\<close> is the state it leaves. The window is then looked up again, in \<open>s1\<close>, by
  the classification and number the slot held before the handler ran (for a pointer into
  the list, \<open>slot_read s w0\<close> is the window \<open>window_list s ! w0\<close>). If the lookup finds
  nothing, \<open>s1\<close> is the result. If it finds the window at slot \<open>w\<close>, the viewport the window
  points to gets width 0 (the window's pointer to it is cleared before the window goes),
  the window's rectangle is invalidated, and the list is the list of \<open>s1\<close> without slot \<open>w\<close>:
  one entry less, the entries before \<open>w\<close> where they were and every later entry one slot
  down. The slot the list gives up keeps what it held, and nothing else changes.
\<close>

theorem window_close_compacts:
  assumes s1: "s1 = close_handler_result E w0 s"
  shows "window_close E None s = Some s \<and>
     (case window_find_by_number (win_classification (slot_read s w0))
             (win_number (slot_read s w0)) s1 of
        None \<Rightarrow> window_close E (Some w0) s = Some s1
      | Some w \<Rightarrow>
          (\<exists>s'. window_close E (Some w0) s = Some s' \<and>
             w < length (window_list s1) \<and>
             length (window_list s') + 1 = length (window_list s1) \<and>
             window_list s' = take w (window_list s1) @ drop (Suc w) (window_list s1) \<and>
             (\<forall>j. j < w \<longrightarrow> window_list s' ! j = window_list s1 ! j) \<and>
             (\<forall>j. w \<le> j \<and> j < length (window_list s') \<longrightarrow>
                  window_list s' ! j = window_list s1 ! Suc j) \<and>
             dirty_blocks s' = dirty_blocks s1 @ [window_rect (window_list s1 ! w)] \<and>
             (case win_viewport (window_list s1 ! w) of
                None \<Rightarrow> viewport_store s' = viewport_store s1
              | Some p \<Rightarrow>
                  viewport_store s' =
                    (viewport_store s1)(p := (viewport_store s1 p)\<lparr>vp_width := 0\<rparr>)) \<and>
             spare_slots s' = (spare_slots s1)
               (length (window_list s1) - 1 :=
                  (if w = length (window_list s1) - 1
                   then (window_list s1 ! w)\<lparr>win_viewport := None\<rparr>
                   else window_list s1 ! (length (window_list s1) - 1))) \<and>
             window_limit s' = window_limit s1 \<and>
             next_slot_null s' = next_slot_null s1))"
proof (rule conjI)
  show "window_close E None s = Some s"
    by (simp add: window_close_def)
next
  let ?f = "window_find_by_number (win_classification (slot_read s w0))
              (win_number (slot_read s w0)) s1"
  show "case ?f of
        None \<Rightarrow> window_close E (Some w0) s = Some s1
      | Some w \<Rightarrow>
          (\<exists>s'. window_close E (Some w0) s = Some s' \<and>
             w < length (window_list s1) \<and>
             length (window_list s') + 1 = length (window_list s1) \<and>
             window_list s' = take w (window_list s1) @ drop (Suc w) (window_list s1) \<and>
             (\<forall>j. j < w \<longrightarrow> window_list s' ! j = window_list s1 ! j) \<and>
             (\<forall>j. w \<le> j \<and> j < length (window_list s') \<longrightarrow>
                  window_list s' ! j = window_list s1 ! Suc j) \<and>
             dirty_blocks s' = dirty_blocks s1 @ [window_rect (window_list s1 ! w)] \<and>
             (case win_viewport (window_list s1 ! w) of
                None \<Rightarrow> viewport_store s' = viewport_store s1
              | Some p \<Rightarrow>
                  viewport_store s' =
                    (viewport_store s1)(p := (viewport_store s1 p)\<lparr>vp_width := 0\<rparr>)) \<and>
             spare_slots s' = (spare_slots s1)
               (length (window_list s1) - 1 :=
                  (if w = length (window_list s1) - 1
                   then (window_list s1 ! w)\<lparr>win_viewport := None\<rparr>
                   else window_list s1 ! (length (window_list s1) - 1))) \<and>
             window_limit s' = window_limit s1 \<and>
             next_slot_null s' = next_slot_null s1)"
  proof (cases ?f)
    case None
    with window_close_not_found [OF s1 None] show ?thesis
      by simp
  next
    case (Some w)
    from window_find_by_number_SomeD [OF Some] have w: "w < length (window_list s1)"
      by simp
    note cl = window_close_found [OF s1 Some]
    have nth1: "(take w (window_list s1) @ drop (Suc w) (window_list s1)) ! j = window_list s1 ! j"
      if "j < w" for j
      using that w by (simp add: nth_append)
    have nth2: "(take w (window_list s1) @ drop (Suc w) (window_list s1)) ! j =
          window_list s1 ! Suc j"
      if "w \<le> j" "j < length (window_list s1) - 1" for j
      using that w by (simp add: nth_append min_def)
    show ?thesis
      using Some w cl nth1 nth2
      by (cases "win_viewport (window_list s1 ! w)") (simp_all add: min_def)
  qed
qed

theorem window_close_compacts_witness:
  "three_rotated = close_handler_result rotating_env 1 three_handled \<and>
   (\<exists>s'. window_close rotating_env (Some 1) three_handled = Some s' \<and>
         window_list s' =
           [plain_window (WC_OTHER 7) 2 50 50 100 100,
            plain_window WC_MAIN_WINDOW 0 0 0 640 480] \<and>
         vp_width (viewport_store s' 3) = 0 \<and>
         dirty_blocks s' = [(5, 5, 25, 25)] \<and>
         spare_slots s' 2 = plain_window WC_MAIN_WINDOW 0 0 0 640 480 \<and>
         window_limit s' = 99)"
proof -
  have h1: "three_rotated = close_handler_result rotating_env 1 three_handled"
    by (simp add: close_handler_result_def slot_read_def rotating_env_def three_handled_def
        three_rotated_def plain_state_def plain_window_def no_handlers_def)
  have f: "window_find_by_number (win_classification (slot_read three_handled 1))
             (win_number (slot_read three_handled 1)) three_rotated = Some 0"
    by (simp add: window_find_by_number_def slot_read_def three_handled_def three_rotated_def
        plain_state_def plain_window_def first_from.simps)
  from window_close_compacts [OF h1, THEN conjunct2] f
  obtain s' where cl: "window_close rotating_env (Some 1) three_handled = Some s'"
    and wl: "window_list s' = take 0 (window_list three_rotated) @
               drop (Suc 0) (window_list three_rotated)"
    and db: "dirty_blocks s' = dirty_blocks three_rotated @
               [window_rect (window_list three_rotated ! 0)]"
    and vs: "case win_viewport (window_list three_rotated ! 0) of
               None \<Rightarrow> viewport_store s' = viewport_store three_rotated
             | Some p \<Rightarrow>
                 viewport_store s' =
                   (viewport_store three_rotated)
                     (p := (viewport_store three_rotated p)\<lparr>vp_width := 0\<rparr>)"
    and sp: "spare_slots s' = (spare_slots three_rotated)
               (length (window_list three_rotated) - 1 :=
                  (if 0 = length (window_list three_rotated) - 1
                   then (window_list three_rotated ! 0)\<lparr>win_viewport := None\<rparr>
                   else window_list three_rotated ! (length (window_list three_rotated) - 1)))"
    and lim: "window_limit s' = window_limit three_rotated"
    by auto
  have wl': "window_list s' =
           [plain_window (WC_OTHER 7) 2 50 50 100 100,
            plain_window WC_MAIN_WINDOW 0 0 0 640 480]"
    using wl by (simp add: three_rotated_def plain_state_def)
  have db': "dirty_blocks s' = [(5, 5, 25, 25)]"
    using db by (simp add: three_rotated_def plain_state_def plain_window_def window_rect_def)
  have vs': "vp_width (viewport_store s' 3) = 0"
    using vs by (simp add: three_rotated_def plain_state_def plain_window_def)
  have sp': "spare_slots s' 2 = plain_window WC_MAIN_WINDOW 0 0 0 640 480"
    unfolding sp by (simp add: three_rotated_def plain_state_def)
  have lim': "window_limit s' = 99"
    using lim by (simp add: three_rotated_def plain_state_def)
  from h1 cl wl' db' vs' sp' lim' show ?thesis
    by blast
qed

lemma s16_20: "s16 20 = 20"
  by (simp add: s16_def)

lemma bring_to_front_nudge_result:
  assumes w: "w < length (window_list s)"
  shows "\<exists>s'. bring_to_front_nudge w s = Some (w, s') \<and>
      window_list s' =
        (if win_x (window_list s ! w) + win_width (window_list s ! w) < 20
         then (window_list s)[w := (window_list s ! w)\<lparr>win_x := 20\<rparr>] else window_list s) \<and>
      viewport_store s' =
        (if win_x (window_list s ! w) + win_width (window_list s ! w) < 20
         then (case win_viewport (window_list s ! w) of
                 None \<Rightarrow> viewport_store s
               | Some p \<Rightarrow> (viewport_store s)
                   (p := (viewport_store s p)
                      \<lparr>vp_x := s16 (vp_x (viewport_store s p) + (20 - win_x (window_list s ! w)))\<rparr>))
         else viewport_store s)"
  using w
  by (cases "win_viewport (window_list s ! w)")
     (simp_all add: bring_to_front_nudge_def deref_def window_invalidate_def Let_def s16_20)

lemma window_bring_to_front_cases:
  assumes w0: "w0 < length (window_list s)"
  shows
   "(WF_STICK_TO_BACK \<in> win_flags (window_list s ! w0) \<or>
     WF_STICK_TO_FRONT \<in> win_flags (window_list s ! w0)
       \<longrightarrow> window_bring_to_front w0 s = Some (w0, s)) \<and>
    (WF_STICK_TO_BACK \<notin> win_flags (window_list s ! w0) \<and>
     WF_STICK_TO_FRONT \<notin> win_flags (window_list s ! w0)
       \<longrightarrow> (\<exists>v s'. window_bring_to_front w0 s = Some (v, s') \<and>
             w0 \<le> v \<and> v < length (window_list s) \<and>
             WF_STICK_TO_FRONT \<notin> win_flags (window_list s ! v) \<and>
             (\<forall>j. v < j \<and> j < length (window_list s) \<longrightarrow>
                  WF_STICK_TO_FRONT \<in> win_flags (window_list s ! j)) \<and>
             (stick_to_front_last (window_list s) \<longrightarrow>
                (\<forall>j < length (window_list s).
                   WF_STICK_TO_FRONT \<in> win_flags (window_list s ! j) \<longleftrightarrow> v < j)) \<and>
             length (window_list s') = length (window_list s) \<and>
             (\<forall>j < length (window_list s). j \<noteq> v \<longrightarrow>
                window_list s' ! j =
                  (if w0 \<le> j \<and> j < v then window_list s ! Suc j else window_list s ! j)) \<and>
             window_list s' ! v =
               (if win_x (window_list s ! w0) + win_width (window_list s ! w0) < 20
                then (window_list s ! w0)\<lparr>win_x := 20\<rparr> else window_list s ! w0) \<and>
             viewport_store s' =
               (if win_x (window_list s ! w0) + win_width (window_list s ! w0) < 20
                then (case win_viewport (window_list s ! w0) of
                        None \<Rightarrow> viewport_store s
                      | Some p \<Rightarrow> (viewport_store s)
                          (p := (viewport_store s p)
                             \<lparr>vp_x := s16 (vp_x (viewport_store s p) +
                                       (20 - win_x (window_list s ! w0)))\<rparr>))
                else viewport_store s)))"
proof (intro conjI impI)
  assume "WF_STICK_TO_BACK \<in> win_flags (window_list s ! w0) \<or>
     WF_STICK_TO_FRONT \<in> win_flags (window_list s ! w0)"
  with w0 show "window_bring_to_front w0 s = Some (w0, s)"
    by (simp add: window_bring_to_front_def deref_def sticky_iff)
next
  assume ns: "WF_STICK_TO_BACK \<notin> win_flags (window_list s ! w0) \<and>
     WF_STICK_TO_FRONT \<notin> win_flags (window_list s ! w0)"
  let ?ws = "window_list s"
  from bring_to_front_move_result [OF w0] ns obtain v s1 where
    mv: "bring_to_front_move w0 s = Some (v, s1)" and le: "w0 \<le> v" and vlt: "v < length ?ws"
    and pv: "WF_STICK_TO_FRONT \<notin> win_flags (?ws ! v)"
    and after: "\<forall>j. v < j \<and> j < length ?ws \<longrightarrow> WF_STICK_TO_FRONT \<in> win_flags (?ws ! j)"
    and len1: "length (window_list s1) = length ?ws"
    and nth1: "\<forall>j < length ?ws. window_list s1 ! j =
           (if w0 \<le> j \<and> j < v then ?ws ! Suc j
            else if j = v then ?ws ! w0 else ?ws ! j)"
    and vs1: "viewport_store s1 = viewport_store s"
    by blast
  from vlt len1 have v1: "v < length (window_list s1)" by simp
  from nth1 vlt have at_v: "window_list s1 ! v = ?ws ! w0" by simp
  from bring_to_front_nudge_result [OF v1] obtain s' where
    nd: "bring_to_front_nudge v s1 = Some (v, s')"
    and wl: "window_list s' =
        (if win_x (window_list s1 ! v) + win_width (window_list s1 ! v) < 20
         then (window_list s1)[v := (window_list s1 ! v)\<lparr>win_x := 20\<rparr>] else window_list s1)"
    and vs: "viewport_store s' =
        (if win_x (window_list s1 ! v) + win_width (window_list s1 ! v) < 20
         then (case win_viewport (window_list s1 ! v) of
                 None \<Rightarrow> viewport_store s1
               | Some p \<Rightarrow> (viewport_store s1)
                   (p := (viewport_store s1 p)
                      \<lparr>vp_x := s16 (vp_x (viewport_store s1 p) + (20 - win_x (window_list s1 ! v)))\<rparr>))
         else viewport_store s1)"
    by blast
  have run: "window_bring_to_front w0 s = Some (v, s')"
    using w0 ns mv nd by (simp add: window_bring_to_front_def deref_def sticky_iff)
  have inv: "\<forall>j < length ?ws. WF_STICK_TO_FRONT \<in> win_flags (?ws ! j) \<longleftrightarrow> v < j"
    if sfl: "stick_to_front_last ?ws"
  proof (intro allI impI)
    fix j assume j: "j < length ?ws"
    show "WF_STICK_TO_FRONT \<in> win_flags (?ws ! j) \<longleftrightarrow> v < j"
    proof
      assume f: "WF_STICK_TO_FRONT \<in> win_flags (?ws ! j)"
      show "v < j"
      proof (rule ccontr)
        assume "\<not> v < j"
        then have "j \<le> v" by simp
        with sfl f vlt have "WF_STICK_TO_FRONT \<in> win_flags (?ws ! v)"
          unfolding stick_to_front_last_def by blast
        with pv show False by simp
      qed
    next
      assume "v < j"
      with after j show "WF_STICK_TO_FRONT \<in> win_flags (?ws ! j)" by simp
    qed
  qed
  have len: "length (window_list s') = length ?ws"
    using wl len1 by (simp split: if_splits)
  have others: "\<forall>j < length ?ws. j \<noteq> v \<longrightarrow>
      window_list s' ! j = (if w0 \<le> j \<and> j < v then ?ws ! Suc j else ?ws ! j)"
    using wl nth1 by (auto split: if_splits)
  have atv: "window_list s' ! v =
      (if win_x (?ws ! w0) + win_width (?ws ! w0) < 20
       then (?ws ! w0)\<lparr>win_x := 20\<rparr> else ?ws ! w0)"
    using wl at_v v1 by simp
  have store: "viewport_store s' =
      (if win_x (?ws ! w0) + win_width (?ws ! w0) < 20
       then (case win_viewport (?ws ! w0) of
               None \<Rightarrow> viewport_store s
             | Some p \<Rightarrow> (viewport_store s)
                 (p := (viewport_store s p)
                    \<lparr>vp_x := s16 (vp_x (viewport_store s p) + (20 - win_x (?ws ! w0)))\<rparr>))
       else viewport_store s)"
    using vs unfolding at_v vs1 by simp
  from run le vlt pv after inv len others atv store
  show "\<exists>v s'. window_bring_to_front w0 s = Some (v, s') \<and>
             w0 \<le> v \<and> v < length (window_list s) \<and>
             WF_STICK_TO_FRONT \<notin> win_flags (window_list s ! v) \<and>
             (\<forall>j. v < j \<and> j < length (window_list s) \<longrightarrow>
                  WF_STICK_TO_FRONT \<in> win_flags (window_list s ! j)) \<and>
             (stick_to_front_last (window_list s) \<longrightarrow>
                (\<forall>j < length (window_list s).
                   WF_STICK_TO_FRONT \<in> win_flags (window_list s ! j) \<longleftrightarrow> v < j)) \<and>
             length (window_list s') = length (window_list s) \<and>
             (\<forall>j < length (window_list s). j \<noteq> v \<longrightarrow>
                window_list s' ! j =
                  (if w0 \<le> j \<and> j < v then window_list s ! Suc j else window_list s ! j)) \<and>
             window_list s' ! v =
               (if win_x (window_list s ! w0) + win_width (window_list s ! w0) < 20
                then (window_list s ! w0)\<lparr>win_x := 20\<rparr> else window_list s ! w0) \<and>
             viewport_store s' =
               (if win_x (window_list s ! w0) + win_width (window_list s ! w0) < 20
                then (case win_viewport (window_list s ! w0) of
                        None \<Rightarrow> viewport_store s
                      | Some p \<Rightarrow> (viewport_store s)
                          (p := (viewport_store s p)
                             \<lparr>vp_x := s16 (vp_x (viewport_store s p) +
                                       (20 - win_x (window_list s ! w0)))\<rparr>))
                else viewport_store s)"
    by blast
qed

text \<open>
  C5, amended. \<^verbatim>\<open>window_bring_to_front\<close> on a window with the stick-to-back or the
  stick-to-front flag returns the pointer it was given and the state as it is. Any other
  window moves to slot \<open>v\<close>, the slot of the last window without the stick-to-front flag:
  every window after \<open>v\<close> is stick-to-front, so \<open>v\<close> is just before the stick-to-front windows
  that end the list, or the last slot when the list does not end with one; in a list that
  keeps all its stick-to-front windows at the end (the z-order invariant of the data model)
  this is the slot just before the first stick-to-front window. The windows between the old
  slot and \<open>v\<close> move back one slot, in order; all others stay. Then, if the window ends left
  of x = 20 (its x plus its width is below 20), its x becomes 20 and the x of the viewport it
  points to has 20 minus the old x added, converted to \<^verbatim>\<open>sint16\<close>. A window that starts left
  of x = 20 and ends at or right of it is not shifted.
\<close>

theorem window_bring_to_front_moves:
  assumes w0: "w0 < length (window_list s)"
  shows
   "(WF_STICK_TO_BACK \<in> win_flags (window_list s ! w0) \<or>
     WF_STICK_TO_FRONT \<in> win_flags (window_list s ! w0)
       \<longrightarrow> window_bring_to_front w0 s = Some (w0, s)) \<and>
    (WF_STICK_TO_BACK \<notin> win_flags (window_list s ! w0) \<and>
     WF_STICK_TO_FRONT \<notin> win_flags (window_list s ! w0)
       \<longrightarrow> (\<exists>v s'. window_bring_to_front w0 s = Some (v, s') \<and>
             w0 \<le> v \<and> v < length (window_list s) \<and>
             WF_STICK_TO_FRONT \<notin> win_flags (window_list s ! v) \<and>
             (\<forall>j. v < j \<and> j < length (window_list s) \<longrightarrow>
                  WF_STICK_TO_FRONT \<in> win_flags (window_list s ! j)) \<and>
             (stick_to_front_last (window_list s) \<longrightarrow>
                (\<forall>j < length (window_list s).
                   WF_STICK_TO_FRONT \<in> win_flags (window_list s ! j) \<longleftrightarrow> v < j)) \<and>
             length (window_list s') = length (window_list s) \<and>
             (\<forall>j < length (window_list s). j \<noteq> v \<longrightarrow>
                window_list s' ! j =
                  (if w0 \<le> j \<and> j < v then window_list s ! Suc j else window_list s ! j)) \<and>
             window_list s' ! v =
               (if win_x (window_list s ! w0) + win_width (window_list s ! w0) < 20
                then (window_list s ! w0)\<lparr>win_x := 20\<rparr> else window_list s ! w0) \<and>
             viewport_store s' =
               (if win_x (window_list s ! w0) + win_width (window_list s ! w0) < 20
                then (case win_viewport (window_list s ! w0) of
                        None \<Rightarrow> viewport_store s
                      | Some p \<Rightarrow> (viewport_store s)
                          (p := (viewport_store s p)
                             \<lparr>vp_x := s16 (vp_x (viewport_store s p) +
                                       (20 - win_x (window_list s ! w0)))\<rparr>))
                else viewport_store s)))"
  using window_bring_to_front_cases [OF w0] .

theorem window_bring_to_front_moves_witness:
  "Suc 0 < length (window_list four_windows) \<and>
   WF_STICK_TO_BACK \<notin> win_flags (window_list four_windows ! Suc 0) \<and>
   WF_STICK_TO_FRONT \<notin> win_flags (window_list four_windows ! Suc 0) \<and>
   stick_to_front_last (window_list four_windows) \<and>
   (\<exists>s'. window_bring_to_front (Suc 0) four_windows = Some (Suc (Suc 0), s') \<and>
      window_list s' =
        [(plain_window WC_MAIN_WINDOW 0 0 0 640 480)\<lparr>win_flags := {WF_STICK_TO_BACK}\<rparr>,
         plain_window (WC_OTHER 7) 2 50 50 100 100,
         (plain_window (WC_OTHER 7) 1 20 40 30 20)\<lparr>win_viewport := Some 3\<rparr>,
         (plain_window (WC_OTHER 9) 0 0 0 640 28)\<lparr>win_flags := {WF_STICK_TO_FRONT}\<rparr>] \<and>
      vp_x (viewport_store s' 3) = 70)"
proof -
  let ?ws = "window_list four_windows"
  have h1: "Suc 0 < length ?ws"
    by (simp add: four_windows_def plain_state_def)
  have h2: "WF_STICK_TO_BACK \<notin> win_flags (?ws ! Suc 0) \<and>
      WF_STICK_TO_FRONT \<notin> win_flags (?ws ! Suc 0)"
    by (simp add: four_windows_def plain_state_def plain_window_def)
  have h3: "stick_to_front_last ?ws"
    unfolding stick_to_front_last_def
    by (auto simp: four_windows_def plain_state_def plain_window_def less_Suc_eq nth_Cons'
          split: if_splits)
  from window_bring_to_front_moves [OF h1, THEN conjunct2, rule_format, OF h2]
  obtain v s' where run: "window_bring_to_front (Suc 0) four_windows = Some (v, s')"
    and iff: "stick_to_front_last ?ws \<longrightarrow>
        (\<forall>j < length ?ws. WF_STICK_TO_FRONT \<in> win_flags (?ws ! j) \<longleftrightarrow> v < j)"
    and len: "length (window_list s') = length ?ws"
    and others: "\<forall>j < length ?ws. j \<noteq> v \<longrightarrow>
        window_list s' ! j = (if Suc 0 \<le> j \<and> j < v then ?ws ! Suc j else ?ws ! j)"
    and atv: "window_list s' ! v =
        (if win_x (?ws ! Suc 0) + win_width (?ws ! Suc 0) < 20
         then (?ws ! Suc 0)\<lparr>win_x := 20\<rparr> else ?ws ! Suc 0)"
    and store: "viewport_store s' =
        (if win_x (?ws ! Suc 0) + win_width (?ws ! Suc 0) < 20
         then (case win_viewport (?ws ! Suc 0) of
                 None \<Rightarrow> viewport_store four_windows
               | Some p \<Rightarrow> (viewport_store four_windows)
                   (p := (viewport_store four_windows p)
                      \<lparr>vp_x := s16 (vp_x (viewport_store four_windows p) +
                                (20 - win_x (?ws ! Suc 0)))\<rparr>))
         else viewport_store four_windows)"
    by blast
  from iff h3 have iff': "\<forall>j < length ?ws. WF_STICK_TO_FRONT \<in> win_flags (?ws ! j) \<longleftrightarrow> v < j"
    by simp
  have "\<not> v < Suc (Suc 0)"
    using iff' [rule_format, of "Suc (Suc 0)"]
    by (simp add: four_windows_def plain_state_def plain_window_def)
  moreover have "v < Suc (Suc (Suc 0))"
    using iff' [rule_format, of "Suc (Suc (Suc 0))"]
    by (simp add: four_windows_def plain_state_def plain_window_def)
  ultimately have v: "v = Suc (Suc 0)"
    by simp
  have wl: "window_list s' =
        [(plain_window WC_MAIN_WINDOW 0 0 0 640 480)\<lparr>win_flags := {WF_STICK_TO_BACK}\<rparr>,
         plain_window (WC_OTHER 7) 2 50 50 100 100,
         (plain_window (WC_OTHER 7) 1 20 40 30 20)\<lparr>win_viewport := Some 3\<rparr>,
         (plain_window (WC_OTHER 9) 0 0 0 640 28)\<lparr>win_flags := {WF_STICK_TO_FRONT}\<rparr>]"
    using len others atv unfolding v
    by (auto simp: list_eq_iff_nth_eq four_windows_def plain_state_def plain_window_def
          less_Suc_eq nth_Cons')
  have vp: "vp_x (viewport_store s' 3) = 70"
    using store
    by (simp add: four_windows_def plain_state_def plain_window_def plain_viewport_def s16_def)
  from h1 h2 h3 run wl vp show ?thesis
    unfolding v by blast
qed

text \<open>
  C5 as stated fails for a window that starts less than 20 pixels from the origin and does
  not end there: a window at x = 5 of width 100 is brought to the front and keeps x = 5.
\<close>

theorem window_bring_to_front_counterexample:
  "win_x (plain_window (WC_OTHER 7) 1 5 40 100 20) = 5 \<and>
   window_bring_to_front 0
     (plain_state [plain_window (WC_OTHER 7) 1 5 40 100 20,
                   plain_window (WC_OTHER 7) 2 50 50 100 100, toolbar_window]) =
   Some (1, (plain_state [plain_window (WC_OTHER 7) 2 50 50 100 100,
                          plain_window (WC_OTHER 7) 1 5 40 100 20, toolbar_window])
              \<lparr>dirty_blocks := [(5, 40, 105, 60)]\<rparr>)"
  by (simp add: window_bring_to_front_def bring_to_front_move_def bring_to_front_nudge_def
      bring_to_front_swaps.simps deref_def sticky_def window_invalidate_def
      gfx_set_dirty_blocks_def plain_state_def plain_window_def toolbar_window_def
      eval_nat_numeral Let_def)

lemma zoom_in_loop_done: "vp_zoom v \<le> zoomLevel \<Longrightarrow> zoom_in_loop zoomLevel (w, v) = (w, v)"
  by (simp add: zoom_in_loop.simps)

lemma zoom_out_loop_done: "zoomLevel \<le> vp_zoom v \<Longrightarrow> zoom_out_loop zoomLevel (w, v) = (w, v)"
  by (simp add: zoom_out_loop.simps)

lemma zoom_in_loop_result:
  "vp_zoom v - zoomLevel = int n \<Longrightarrow>
     \<exists>w'. zoom_in_loop zoomLevel (w, v) =
       (w', v\<lparr>vp_view_width := halve_n n (vp_view_width v),
               vp_view_height := halve_n n (vp_view_height v),
               vp_zoom := zoomLevel\<rparr>) \<and>
       win_viewport w' = win_viewport w \<and> win_x w' = win_x w \<and> win_y w' = win_y w \<and>
       win_width w' = win_width w \<and> win_height w' = win_height w \<and> win_flags w' = win_flags w"
proof (induction n arbitrary: w v)
  case 0
  then have "vp_zoom v = zoomLevel" by simp
  then show ?case by (simp add: zoom_in_loop.simps)
next
  case (Suc n)
  define v2 where "v2 = v\<lparr>vp_zoom := vp_zoom v - 1,
      vp_view_width := s16 (cdiv (vp_view_width v) 2),
      vp_view_height := s16 (cdiv (vp_view_height v) 2)\<rparr>"
  define w1 where "w1 = w\<lparr>win_saved_view_x := s16 (win_saved_view_x w + cdiv (vp_view_width v) 4),
      win_saved_view_y := s16 (win_saved_view_y w + cdiv (vp_view_height v) 4)\<rparr>"
  from Suc.prems have gt: "vp_zoom v > zoomLevel" by simp
  then have step: "zoom_in_loop zoomLevel (w, v) = zoom_in_loop zoomLevel (w1, v2)"
    by (simp add: zoom_in_loop.simps [of zoomLevel w v] Let_def v2_def w1_def)
  from Suc.prems have "vp_zoom v2 - zoomLevel = int n" by (simp add: v2_def)
  from Suc.IH [OF this, of w1] obtain w' where
    r: "zoom_in_loop zoomLevel (w1, v2) =
       (w', v2\<lparr>vp_view_width := halve_n n (vp_view_width v2),
               vp_view_height := halve_n n (vp_view_height v2),
               vp_zoom := zoomLevel\<rparr>)"
    and f: "win_viewport w' = win_viewport w1" "win_x w' = win_x w1" "win_y w' = win_y w1"
      "win_width w' = win_width w1" "win_height w' = win_height w1" "win_flags w' = win_flags w1"
    by blast
  show ?case
    using step r f by (simp add: v2_def w1_def)
qed

lemma zoom_out_loop_result:
  "zoomLevel - vp_zoom v = int n \<Longrightarrow>
     \<exists>w'. zoom_out_loop zoomLevel (w, v) =
       (w', v\<lparr>vp_view_width := double_n n (vp_view_width v),
               vp_view_height := double_n n (vp_view_height v),
               vp_zoom := zoomLevel\<rparr>) \<and>
       win_viewport w' = win_viewport w \<and> win_x w' = win_x w \<and> win_y w' = win_y w \<and>
       win_width w' = win_width w \<and> win_height w' = win_height w \<and> win_flags w' = win_flags w"
proof (induction n arbitrary: w v)
  case 0
  then have "vp_zoom v = zoomLevel" by simp
  then show ?case by (simp add: zoom_out_loop.simps)
next
  case (Suc n)
  define v2 where "v2 = v\<lparr>vp_zoom := vp_zoom v + 1,
      vp_view_width := s16 (vp_view_width v * 2), vp_view_height := s16 (vp_view_height v * 2)\<rparr>"
  define w1 where "w1 = w\<lparr>win_saved_view_x := s16 (win_saved_view_x w - cdiv (vp_view_width v) 2),
      win_saved_view_y := s16 (win_saved_view_y w - cdiv (vp_view_height v) 2)\<rparr>"
  from Suc.prems have gt: "vp_zoom v < zoomLevel" by simp
  then have step: "zoom_out_loop zoomLevel (w, v) = zoom_out_loop zoomLevel (w1, v2)"
    by (simp add: zoom_out_loop.simps [of zoomLevel w v] Let_def v2_def w1_def)
  from Suc.prems have "zoomLevel - vp_zoom v2 = int n" by (simp add: v2_def)
  from Suc.IH [OF this, of w1] obtain w' where
    r: "zoom_out_loop zoomLevel (w1, v2) =
       (w', v2\<lparr>vp_view_width := double_n n (vp_view_width v2),
               vp_view_height := double_n n (vp_view_height v2),
               vp_zoom := zoomLevel\<rparr>)"
    and f: "win_viewport w' = win_viewport w1" "win_x w' = win_x w1" "win_y w' = win_y w1"
      "win_width w' = win_width w1" "win_height w' = win_height w1" "win_flags w' = win_flags w1"
    by blast
  show ?case
    using step r f by (simp add: v2_def w1_def)
qed

lemma window_bring_to_front_viewports:
  assumes w0: "w0 < length (window_list s)"
  shows "\<exists>v s'. window_bring_to_front w0 s = Some (v, s') \<and> v < length (window_list s') \<and>
      length (window_list s') = length (window_list s) \<and>
      win_viewport (window_list s' ! v) = win_viewport (window_list s ! w0) \<and>
      (\<forall>q. vp_view_width (viewport_store s' q) = vp_view_width (viewport_store s q) \<and>
           vp_view_height (viewport_store s' q) = vp_view_height (viewport_store s q) \<and>
           vp_zoom (viewport_store s' q) = vp_zoom (viewport_store s q))"
proof (cases "WF_STICK_TO_BACK \<in> win_flags (window_list s ! w0) \<or>
     WF_STICK_TO_FRONT \<in> win_flags (window_list s ! w0)")
  case True
  with window_bring_to_front_cases [OF w0] have "window_bring_to_front w0 s = Some (w0, s)"
    by blast
  with w0 show ?thesis by simp
next
  case False
  with window_bring_to_front_cases [OF w0] obtain v s' where
    run: "window_bring_to_front w0 s = Some (v, s')" and v: "v < length (window_list s)"
    and len: "length (window_list s') = length (window_list s)"
    and atv: "window_list s' ! v =
               (if win_x (window_list s ! w0) + win_width (window_list s ! w0) < 20
                then (window_list s ! w0)\<lparr>win_x := 20\<rparr> else window_list s ! w0)"
    and store: "viewport_store s' =
               (if win_x (window_list s ! w0) + win_width (window_list s ! w0) < 20
                then (case win_viewport (window_list s ! w0) of
                        None \<Rightarrow> viewport_store s
                      | Some p \<Rightarrow> (viewport_store s)
                          (p := (viewport_store s p)
                             \<lparr>vp_x := s16 (vp_x (viewport_store s p) +
                                       (20 - win_x (window_list s ! w0)))\<rparr>))
                else viewport_store s)"
    by blast
  have "win_viewport (window_list s' ! v) = win_viewport (window_list s ! w0)"
    using atv by simp
  moreover have "vp_view_width (viewport_store s' q) = vp_view_width (viewport_store s q) \<and>
           vp_view_height (viewport_store s' q) = vp_view_height (viewport_store s q) \<and>
           vp_zoom (viewport_store s' q) = vp_zoom (viewport_store s q)" for q
    using store by (cases "win_viewport (window_list s ! w0)") (auto split: if_splits)
  ultimately show ?thesis
    using run v len by auto
qed

lemma window_zoom_set_extents:
  assumes w: "w < length (window_list s)"
    and vp: "win_viewport (window_list s ! w) = Some p"
    and nc: "\<not> (zoom_to_cursor E \<and> atCursor)"
  shows "\<exists>s1. window_zoom_set E w zoomLevel atCursor s = Some s1 \<and>
      (\<exists>w1 < length (window_list s1). win_viewport (window_list s1 ! w1) = Some p) \<and>
      vp_zoom (viewport_store s1 p) = Clamp 0 zoomLevel (MAX_ZOOM_LEVEL E) \<and>
      vp_view_width (viewport_store s1 p) =
        zoomed_extent (Clamp 0 zoomLevel (MAX_ZOOM_LEVEL E)) (vp_zoom (viewport_store s p))
          (vp_view_width (viewport_store s p)) \<and>
      vp_view_height (viewport_store s1 p) =
        zoomed_extent (Clamp 0 zoomLevel (MAX_ZOOM_LEVEL E)) (vp_zoom (viewport_store s p))
          (vp_view_height (viewport_store s p))"
proof -
  define L where "L = Clamp 0 zoomLevel (MAX_ZOOM_LEVEL E)"
  define v where "v = viewport_store s p"
  define win where "win = window_list s ! w"
  show ?thesis
  proof (cases "vp_zoom v = L")
    case True
    then have eq: "vp_zoom (viewport_store s p) = Clamp 0 zoomLevel (MAX_ZOOM_LEVEL E)"
      by (simp add: L_def v_def)
    then have "window_zoom_set E w zoomLevel atCursor s = Some s"
      using w vp by (simp add: window_zoom_set_def deref_def)
    with eq w vp show ?thesis
      by (auto simp: zoomed_extent_def)
  next
    case False
    have "\<exists>win2. zoom_out_loop L (zoom_in_loop L (win, v)) =
        (win2, v\<lparr>vp_view_width := zoomed_extent L (vp_zoom v) (vp_view_width v),
                 vp_view_height := zoomed_extent L (vp_zoom v) (vp_view_height v),
                 vp_zoom := L\<rparr>) \<and> win_viewport win2 = win_viewport win"
    proof (cases "vp_zoom v > L")
      case True
      then have "vp_zoom v - L = int (nat (vp_zoom v - L))" by simp
      from zoom_in_loop_result [OF this, of win] obtain w' where
        "zoom_in_loop L (win, v) =
          (w', v\<lparr>vp_view_width := halve_n (nat (vp_zoom v - L)) (vp_view_width v),
                 vp_view_height := halve_n (nat (vp_zoom v - L)) (vp_view_height v),
                 vp_zoom := L\<rparr>)" "win_viewport w' = win_viewport win"
        by blast
      with True show ?thesis
        by (simp add: zoom_out_loop_done zoomed_extent_def)
    next
      case False
      then have "L - vp_zoom v = int (nat (L - vp_zoom v))" by simp
      from zoom_out_loop_result [OF this, of win] obtain w' where
        "zoom_out_loop L (win, v) =
          (w', v\<lparr>vp_view_width := double_n (nat (L - vp_zoom v)) (vp_view_width v),
                 vp_view_height := double_n (nat (L - vp_zoom v)) (vp_view_height v),
                 vp_zoom := L\<rparr>)" "win_viewport w' = win_viewport win"
        by blast
      with False show ?thesis
        by (simp add: zoom_in_loop_done zoomed_extent_def)
    qed
    then obtain win2 where loops: "zoom_out_loop L (zoom_in_loop L (win, v)) =
        (win2, v\<lparr>vp_view_width := zoomed_extent L (vp_zoom v) (vp_view_width v),
                 vp_view_height := zoomed_extent L (vp_zoom v) (vp_view_height v),
                 vp_zoom := L\<rparr>)" and vp2: "win_viewport win2 = win_viewport win"
      by blast
    define v2 where "v2 = v\<lparr>vp_view_width := zoomed_extent L (vp_zoom v) (vp_view_width v),
                 vp_view_height := zoomed_extent L (vp_zoom v) (vp_view_height v),
                 vp_zoom := L\<rparr>"
    define s1 where "s1 = s\<lparr>window_list := (window_list s)[w := win2],
                     viewport_store := (viewport_store s)(p := v2)\<rparr>"
    have run: "window_zoom_set E w zoomLevel atCursor s =
        Option.bind (window_bring_to_front w s1) (\<lambda>(w', s2). window_invalidate (Some w) s2)"
      using w vp nc False loops
      by (cases "zoom_in_loop L (win, v)")
         (auto simp: window_zoom_set_def deref_def L_def [symmetric] v_def [symmetric]
            win_def [symmetric] s1_def v2_def Let_def)
    have w1: "w < length (window_list s1)"
      using w by (simp add: s1_def)
    from window_bring_to_front_viewports [OF w1] obtain v' s2 where
      btf: "window_bring_to_front w s1 = Some (v', s2)" and v': "v' < length (window_list s2)"
      and len2: "length (window_list s2) = length (window_list s1)"
      and vpv: "win_viewport (window_list s2 ! v') = win_viewport (window_list s1 ! w)"
      and st2: "\<forall>q. vp_view_width (viewport_store s2 q) = vp_view_width (viewport_store s1 q) \<and>
           vp_view_height (viewport_store s2 q) = vp_view_height (viewport_store s1 q) \<and>
           vp_zoom (viewport_store s2 q) = vp_zoom (viewport_store s1 q)"
      by blast
    define s3 where "s3 = gfx_set_dirty_blocks (win_x (window_list s2 ! w)) (win_y (window_list s2 ! w))
        (win_x (window_list s2 ! w) + win_width (window_list s2 ! w))
        (win_y (window_list s2 ! w) + win_height (window_list s2 ! w)) s2"
    have res: "window_zoom_set E w zoomLevel atCursor s = Some s3"
      using run btf w1 len2 by (simp add: window_invalidate_def deref_def s3_def)
    have "win_viewport (window_list s3 ! v') = Some p"
      using vpv vp2 vp w by (simp add: s3_def s1_def win_def)
    moreover have "v' < length (window_list s3)"
      using v' by (simp add: s3_def)
    moreover have "viewport_store s3 = viewport_store s2"
      by (simp add: s3_def)
    moreover have "viewport_store s1 p = v2"
      by (simp add: s1_def)
    ultimately show ?thesis
      using res st2 unfolding L_def [symmetric] v_def [symmetric]
      by (auto simp: v2_def)
  qed
qed

lemma in_sint16_half: "in_sint16 (x * 2) \<Longrightarrow> in_sint16 x"
  by (auto simp: in_sint16_def)

lemma in_sint16_power: "in_sint16 (x * 2 ^ Suc n) \<Longrightarrow> in_sint16 (x * 2 ^ n)"
proof -
  assume a: "in_sint16 (x * 2 ^ Suc n)"
  have "x * 2 ^ Suc n = (x * 2 ^ n) * 2"
    by simp
  with a have "in_sint16 ((x * 2 ^ n) * 2)"
    by (simp only:)
  then show ?thesis
    by (rule in_sint16_half)
qed

lemma halve_n_doubled: "in_sint16 (x * 2 ^ n) \<Longrightarrow> halve_n n (x * 2 ^ n) = x"
proof (induction n arbitrary: x)
  case 0
  then show ?case by simp
next
  case (Suc n)
  have e: "x * 2 ^ Suc n = (x * 2 ^ n) * 2"
    by simp
  then have c: "cdiv (x * 2 ^ Suc n) 2 = x * 2 ^ n"
    by (simp only: cdiv_2_double)
  from Suc.prems have fits: "in_sint16 (x * 2 ^ n)"
    by (rule in_sint16_power)
  then have "s16 (cdiv (x * 2 ^ Suc n) 2) = x * 2 ^ n"
    unfolding c by (rule s16_id)
  with Suc.IH [OF fits] show ?case
    by (simp del: power_Suc)
qed

lemma double_n_fits: "in_sint16 (x * 2 ^ n) \<Longrightarrow> double_n n x = x * 2 ^ n"
proof (induction n arbitrary: x)
  case 0
  then show ?case by simp
next
  case (Suc n)
  have e: "x * 2 ^ Suc n = (x * 2) * 2 ^ n"
    by simp
  with Suc.prems have big: "in_sint16 ((x * 2) * 2 ^ n)"
    by (simp only:)
  have "in_sint16 (x * 2)"
    using big
  proof (induction n)
    case 0
    then show ?case by simp
  next
    case (Suc m)
    from Suc.prems have "in_sint16 ((x * 2) * 2 ^ m)"
      by (rule in_sint16_power)
    then show ?case by (rule Suc.IH)
  qed
  then have "s16 (x * 2) = x * 2"
    by (rule s16_id)
  then have "double_n (Suc n) x = double_n n (x * 2)"
    by simp
  also have "\<dots> = (x * 2) * 2 ^ n"
    by (rule Suc.IH [OF big])
  also have "\<dots> = x * 2 ^ Suc n"
    by simp
  finally show ?case .
qed

lemma zoomed_extent_round_trip:
  assumes z: "0 \<le> z" and l: "0 \<le> L" and x: "x = k * 2 ^ nat z"
    and fit: "in_sint16 (x * 2 ^ nat (L - z))"
  shows "zoomed_extent z L (zoomed_extent L z x) = x"
proof (cases "z \<le> L")
  case True
  have out: "zoomed_extent L z x = x * 2 ^ nat (L - z)"
    using True fit by (simp add: zoomed_extent_def double_n_fits)
  show ?thesis
  proof (cases "z = L")
    case True
    then show ?thesis
      by (simp add: zoomed_extent_def)
  next
    case False
    with True have "z < L" by simp
    then show ?thesis
      unfolding out using fit by (simp add: zoomed_extent_def halve_n_doubled)
  qed
next
  case False
  define n where "n = nat (z - L)"
  define y where "y = k * 2 ^ (nat z - n)"
  from False have fx: "in_sint16 x"
    using fit by simp
  have "n \<le> nat z"
    using z l False by (simp add: n_def)
  then have "(2::int) ^ nat z = 2 ^ (nat z - n) * 2 ^ n"
    by (simp add: power_add [symmetric])
  then have xy: "x = y * 2 ^ n"
    by (simp add: x y_def)
  from fx have fy: "in_sint16 (y * 2 ^ n)"
    by (simp add: xy)
  have inn: "zoomed_extent L z x = y"
    using False halve_n_doubled [OF fy] by (simp add: zoomed_extent_def n_def [symmetric] xy)
  have "zoomed_extent z L y = y * 2 ^ n"
    using False double_n_fits [OF fy] by (simp add: zoomed_extent_def n_def [symmetric])
  with inn xy show ?thesis
    by simp
qed

text \<open>
  C6, amended. Without cursor anchoring, from a zoom level \<open>L0\<close> in \<open>[0, max]\<close> and for a
  level \<open>L\<close> in \<open>[0, max]\<close>, on a viewport whose view extents are its screen extents shifted
  left by \<open>L0\<close>: when the view extents doubled \<open>L - L0\<close> times (the extents themselves when
  \<open>L\<close> is not above \<open>L0\<close>) are \<^verbatim>\<open>sint16\<close> values, \<^verbatim>\<open>window_zoom_set(w, L)\<close> returns, the viewport
  is still owned by a window of the list (the call may have moved the window to another
  slot), and \<^verbatim>\<open>window_zoom_set\<close> to \<open>L0\<close> on any window that owns the viewport returns with
  \<^verbatim>\<open>view_width\<close> and \<^verbatim>\<open>view_height\<close> as they were at the start.
\<close>

theorem window_zoom_set_round_trip:
  assumes w: "w < length (window_list s)"
    and vp: "win_viewport (window_list s ! w) = Some p"
    and nc: "\<not> (zoom_to_cursor E \<and> atCursor)"
    and L0: "0 \<le> vp_zoom (viewport_store s p)" "vp_zoom (viewport_store s p) \<le> MAX_ZOOM_LEVEL E"
    and L: "0 \<le> L" "L \<le> MAX_ZOOM_LEVEL E"
    and inv: "view_matches_zoom (viewport_store s p)"
    and fit: "in_sint16 (vp_view_width (viewport_store s p) *
                 2 ^ nat (L - vp_zoom (viewport_store s p)))"
      "in_sint16 (vp_view_height (viewport_store s p) *
                 2 ^ nat (L - vp_zoom (viewport_store s p)))"
  shows "\<exists>s1. window_zoom_set E w L atCursor s = Some s1 \<and>
     (\<exists>w1 < length (window_list s1). win_viewport (window_list s1 ! w1) = Some p) \<and>
     (\<forall>w1 < length (window_list s1). win_viewport (window_list s1 ! w1) = Some p \<longrightarrow>
        (\<exists>s2. window_zoom_set E w1 (vp_zoom (viewport_store s p)) atCursor s1 = Some s2 \<and>
           vp_view_width (viewport_store s2 p) = vp_view_width (viewport_store s p) \<and>
           vp_view_height (viewport_store s2 p) = vp_view_height (viewport_store s p)))"
proof -
  define z where "z = vp_zoom (viewport_store s p)"
  have cl: "Clamp 0 L (MAX_ZOOM_LEVEL E) = L" "Clamp 0 z (MAX_ZOOM_LEVEL E) = z"
    using L0 L by (simp_all add: Clamp_def z_def)
  from window_zoom_set_extents [OF w vp nc, of L] obtain s1 where
    run1: "window_zoom_set E w L atCursor s = Some s1"
    and own: "\<exists>w1 < length (window_list s1). win_viewport (window_list s1 ! w1) = Some p"
    and z1: "vp_zoom (viewport_store s1 p) = L"
    and vw1: "vp_view_width (viewport_store s1 p) =
        zoomed_extent L z (vp_view_width (viewport_store s p))"
    and vh1: "vp_view_height (viewport_store s1 p) =
        zoomed_extent L z (vp_view_height (viewport_store s p))"
    unfolding cl z_def by blast
  from inv have xw: "vp_view_width (viewport_store s p) = vp_width (viewport_store s p) * 2 ^ nat z"
    and xh: "vp_view_height (viewport_store s p) = vp_height (viewport_store s p) * 2 ^ nat z"
    by (simp_all add: view_matches_zoom_def z_def)
  from L0(1) have z0: "0 \<le> z"
    by (simp add: z_def)
  have rtw: "zoomed_extent z L (zoomed_extent L z (vp_view_width (viewport_store s p))) =
      vp_view_width (viewport_store s p)"
    using z0 L(1) xw fit(1) unfolding z_def [symmetric] by (rule zoomed_extent_round_trip)
  have rth: "zoomed_extent z L (zoomed_extent L z (vp_view_height (viewport_store s p))) =
      vp_view_height (viewport_store s p)"
    using z0 L(1) xh fit(2) unfolding z_def [symmetric] by (rule zoomed_extent_round_trip)
  have "\<exists>s2. window_zoom_set E w1 z atCursor s1 = Some s2 \<and>
           vp_view_width (viewport_store s2 p) = vp_view_width (viewport_store s p) \<and>
           vp_view_height (viewport_store s2 p) = vp_view_height (viewport_store s p)"
    if w1: "w1 < length (window_list s1)" and vp1: "win_viewport (window_list s1 ! w1) = Some p"
    for w1
  proof -
    from window_zoom_set_extents [OF w1 vp1 nc, of z] obtain s2 where
      run2: "window_zoom_set E w1 z atCursor s1 = Some s2"
      and vw2: "vp_view_width (viewport_store s2 p) =
          zoomed_extent z L (vp_view_width (viewport_store s1 p))"
      and vh2: "vp_view_height (viewport_store s2 p) =
          zoomed_extent z L (vp_view_height (viewport_store s1 p))"
      unfolding cl z1 by blast
    from rtw rth vw1 vh1 vw2 vh2 run2 show ?thesis
      by simp
  qed
  with run1 own show ?thesis
    unfolding z_def by blast
qed

theorem window_zoom_set_round_trip_witness:
  "(0::nat) < length (window_list (screen_main_window 640 480 1)) \<and>
   win_viewport (window_list (screen_main_window 640 480 1) ! 0) = Some 7 \<and>
   \<not> (zoom_to_cursor plain_env \<and> False) \<and>
   0 \<le> vp_zoom (viewport_store (screen_main_window 640 480 1) 7) \<and>
   vp_zoom (viewport_store (screen_main_window 640 480 1) 7) \<le> MAX_ZOOM_LEVEL plain_env \<and>
   (0::int) \<le> 2 \<and> 2 \<le> MAX_ZOOM_LEVEL plain_env \<and>
   view_matches_zoom (viewport_store (screen_main_window 640 480 1) 7) \<and>
   in_sint16 (vp_view_width (viewport_store (screen_main_window 640 480 1) 7) *
                2 ^ nat (2 - vp_zoom (viewport_store (screen_main_window 640 480 1) 7))) \<and>
   in_sint16 (vp_view_height (viewport_store (screen_main_window 640 480 1) 7) *
                2 ^ nat (2 - vp_zoom (viewport_store (screen_main_window 640 480 1) 7))) \<and>
   (\<exists>s1 w1 s2. window_zoom_set plain_env 0 2 False (screen_main_window 640 480 1) = Some s1 \<and>
      w1 < length (window_list s1) \<and> win_viewport (window_list s1 ! w1) = Some 7 \<and>
      window_zoom_set plain_env w1 1 False s1 = Some s2 \<and>
      vp_view_width (viewport_store s2 7) = 1280 \<and>
      vp_view_height (viewport_store s2 7) = 960)"
proof -
  let ?s = "screen_main_window 640 480 1"
  have h1: "(0::nat) < length (window_list ?s)"
    by (simp add: screen_main_window_def plain_state_def)
  have h2: "win_viewport (window_list ?s ! 0) = Some 7"
    by (simp add: screen_main_window_def plain_state_def)
  have h3: "\<not> (zoom_to_cursor plain_env \<and> False)"
    by simp
  have z: "vp_zoom (viewport_store ?s 7) = 1"
    and vw: "vp_view_width (viewport_store ?s 7) = 1280"
    and vh: "vp_view_height (viewport_store ?s 7) = 960"
    by (simp_all add: screen_main_window_def plain_state_def)
  have m: "MAX_ZOOM_LEVEL plain_env = 3"
    by (simp add: plain_env_def)
  have h4: "0 \<le> vp_zoom (viewport_store ?s 7)" "vp_zoom (viewport_store ?s 7) \<le> MAX_ZOOM_LEVEL plain_env"
    and h5: "(0::int) \<le> 2" "2 \<le> MAX_ZOOM_LEVEL plain_env"
    by (simp_all add: screen_main_window_def plain_state_def m)
  have h6: "view_matches_zoom (viewport_store ?s 7)"
    by (simp add: view_matches_zoom_def screen_main_window_def plain_state_def)
  have h7: "in_sint16 (vp_view_width (viewport_store ?s 7) *
                2 ^ nat (2 - vp_zoom (viewport_store ?s 7)))"
    and h8: "in_sint16 (vp_view_height (viewport_store ?s 7) *
                2 ^ nat (2 - vp_zoom (viewport_store ?s 7)))"
    by (simp_all add: screen_main_window_def plain_state_def in_sint16_def)
  from window_zoom_set_round_trip [OF h1 h2 h3 h4 h5 h6 h7 h8]
  obtain s1 w1 where run1: "window_zoom_set plain_env 0 2 False ?s = Some s1"
    and w1: "w1 < length (window_list s1)" "win_viewport (window_list s1 ! w1) = Some 7"
    and all: "\<forall>w1 < length (window_list s1). win_viewport (window_list s1 ! w1) = Some 7 \<longrightarrow>
        (\<exists>s2. window_zoom_set plain_env w1 (vp_zoom (viewport_store ?s 7)) False s1 = Some s2 \<and>
           vp_view_width (viewport_store s2 7) = vp_view_width (viewport_store ?s 7) \<and>
           vp_view_height (viewport_store s2 7) = vp_view_height (viewport_store ?s 7))"
    by blast
  from all w1 obtain s2 where "window_zoom_set plain_env w1 1 False s1 = Some s2"
    "vp_view_width (viewport_store s2 7) = 1280" "vp_view_height (viewport_store s2 7) = 960"
    unfolding z vw vh by blast
  with h1 h2 h3 h4 h5 h6 h7 h8 run1 w1 show ?thesis
    by blast
qed

text \<open>
  C6 as stated fails when doubling an extent leaves the range of its 16-bit field: on a
  screen 5120 wide, the viewport at zoom 2 has \<^verbatim>\<open>view_width\<close> 20480; at zoom 3 the field holds
  40960 converted to \<^verbatim>\<open>sint16\<close>, which is -24576, and back at zoom 2 it holds -12288.
\<close>

theorem window_zoom_set_round_trip_counterexample:
  "\<exists>s1 w1 s2. view_matches_zoom (viewport_store (screen_main_window 5120 2880 2) 7) \<and>
      vp_zoom (viewport_store (screen_main_window 5120 2880 2) 7) = 2 \<and>
      vp_view_width (viewport_store (screen_main_window 5120 2880 2) 7) = 20480 \<and>
      window_zoom_set plain_env 0 3 False (screen_main_window 5120 2880 2) = Some s1 \<and>
      vp_view_width (viewport_store s1 7) = - 24576 \<and>
      w1 < length (window_list s1) \<and> win_viewport (window_list s1 ! w1) = Some 7 \<and>
      window_zoom_set plain_env w1 2 False s1 = Some s2 \<and>
      vp_zoom (viewport_store s2 7) = 2 \<and>
      vp_view_width (viewport_store s2 7) = - 12288"
proof -
  let ?s = "screen_main_window 5120 2880 2"
  have h1: "(0::nat) < length (window_list ?s)"
    by (simp add: screen_main_window_def plain_state_def)
  have h2: "win_viewport (window_list ?s ! 0) = Some 7"
    by (simp add: screen_main_window_def plain_state_def)
  have h3: "\<not> (zoom_to_cursor plain_env \<and> False)"
    by simp
  have z: "vp_zoom (viewport_store ?s 7) = 2"
    and vw: "vp_view_width (viewport_store ?s 7) = 20480"
    by (simp_all add: screen_main_window_def plain_state_def)
  have inv: "view_matches_zoom (viewport_store ?s 7)"
    by (simp add: view_matches_zoom_def screen_main_window_def plain_state_def)
  have c3: "Clamp 0 3 (MAX_ZOOM_LEVEL plain_env) = 3" and c2: "Clamp 0 2 (MAX_ZOOM_LEVEL plain_env) = 2"
    by (simp_all add: Clamp_def plain_env_def)
  from window_zoom_set_extents [OF h1 h2 h3, of 3] obtain s1 w1 where
    run1: "window_zoom_set plain_env 0 3 False ?s = Some s1"
    and w1: "w1 < length (window_list s1)" "win_viewport (window_list s1 ! w1) = Some 7"
    and z1: "vp_zoom (viewport_store s1 7) = 3"
    and vw1: "vp_view_width (viewport_store s1 7) = zoomed_extent 3 2 20480"
    unfolding c3 z vw by blast
  have e1: "zoomed_extent 3 2 20480 = - 24576"
    by (simp add: zoomed_extent_def s16_def)
  from window_zoom_set_extents [OF w1 h3, of 2] obtain s2 where
    run2: "window_zoom_set plain_env w1 2 False s1 = Some s2"
    and z2: "vp_zoom (viewport_store s2 7) = 2"
    and vw2: "vp_view_width (viewport_store s2 7) = zoomed_extent 2 3 (- 24576)"
    unfolding c2 z1 vw1 e1 by blast
  have e2: "zoomed_extent 2 3 (- 24576) = - 12288"
    by (simp add: zoomed_extent_def s16_def cdiv_def)
  from inv z vw run1 vw1 w1 run2 z2 vw2 show ?thesis
    unfolding e1 e2 by blast
qed

lemma close_handler_result_list:
  "close_keeps_list E \<Longrightarrow> window_list (close_handler_result E w s) = window_list s"
  by (auto simp: close_keeps_list_def close_handler_result_def split: option.splits)

lemma window_find_by_number_distinct:
  assumes d: "distinct (map window_key (window_list s))" and i: "i < length (window_list s)"
  shows "window_find_by_number (win_classification (window_list s ! i))
           (win_number (window_list s ! i)) s = Some i"
  unfolding window_find_by_number_def
proof (rule first_from_SomeI)
  show "0 \<le> i" by simp
  show "i < length (window_list s)" by (rule i)
  show "win_classification (window_list s ! i) = win_classification (window_list s ! i) \<and>
      win_number (window_list s ! i) = win_number (window_list s ! i)" by simp
  show "\<forall>j. 0 \<le> j \<and> j < i \<longrightarrow>
      \<not> (win_classification (window_list s ! j) = win_classification (window_list s ! i) \<and>
         win_number (window_list s ! j) = win_number (window_list s ! i))"
  proof (intro allI impI notI)
    fix j assume j: "0 \<le> j \<and> j < i"
      and eq: "win_classification (window_list s ! j) = win_classification (window_list s ! i) \<and>
         win_number (window_list s ! j) = win_number (window_list s ! i)"
    from eq have "map window_key (window_list s) ! j = map window_key (window_list s) ! i"
      using i j by (simp add: window_key_def)
    moreover have "j < length (map window_key (window_list s))"
      "i < length (map window_key (window_list s))"
      using i j by simp_all
    ultimately have "j = i"
      using d nth_eq_iff_index_eq by blast
    with j show False by simp
  qed
qed

lemma slot_read_live: "w < length (window_list s) \<Longrightarrow> slot_read s w = window_list s ! w"
  by (simp add: slot_read_def)

lemma window_close_removes:
  assumes k: "close_keeps_list E"
    and d: "distinct (map window_key (window_list s))"
    and w: "w < length (window_list s)"
  shows "\<exists>s'. window_close E (Some w) s = Some s' \<and>
      window_list s' = take w (window_list s) @ drop (Suc w) (window_list s)"
proof -
  define s1 where "s1 = close_handler_result E w s"
  have l1: "window_list s1 = window_list s"
    using k by (simp add: s1_def close_handler_result_list)
  have "window_find_by_number (win_classification (window_list s1 ! w))
           (win_number (window_list s1 ! w)) s1 = Some w"
    using d w by (intro window_find_by_number_distinct) (simp_all add: l1)
  then have "window_find_by_number (win_classification (slot_read s w))
           (win_number (slot_read s w)) s1 = Some w"
    using w by (simp add: l1 slot_read_live)
  from window_close_found [OF s1_def this] show ?thesis
    by (simp add: l1)
qed

lemma distinct_take_drop: "distinct xs \<Longrightarrow> distinct (take w xs @ drop (Suc w) xs)"
  using set_take_disj_set_drop_if_distinct [of xs w "Suc w"] by simp

lemma distinct_keys_remove:
  assumes "distinct (map window_key ws)"
  shows "distinct (map window_key (take w ws @ drop (Suc w) ws))"
proof -
  have "map window_key (take w ws @ drop (Suc w) ws) =
      take w (map window_key ws) @ drop (Suc w) (map window_key ws)"
    by (simp add: take_map drop_map)
  with distinct_take_drop [OF assms, of w] show ?thesis
    by (simp only:)
qed

lemma evict_surplus_prefix:
  "\<forall>x \<in> set pre. \<not> closable x \<Longrightarrow>
     evict_surplus avoid n (pre @ rest) = pre @ evict_surplus avoid n rest"
proof (induction pre)
  case Nil
  then show ?case by simp
next
  case (Cons x pre)
  then show ?case by (cases n) simp_all
qed

lemma first_closable_split:
  assumes "first_from closable ws 0 = Some k"
  shows "ws = take k ws @ ws ! k # drop (Suc k) ws \<and> closable (ws ! k) \<and>
     (\<forall>x \<in> set (take k ws). \<not> closable x) \<and> k < length ws"
proof -
  from first_from_SomeD [OF assms] have k: "k < length ws" and c: "closable (ws ! k)"
    and b: "\<forall>j. 0 \<le> j \<and> j < k \<longrightarrow> \<not> closable (ws ! j)"
    by simp_all
  have "\<not> closable x" if "x \<in> set (take k ws)" for x
  proof -
    from that obtain j where "j < length (take k ws)" "take k ws ! j = x"
      by (auto simp: in_set_conv_nth)
    with b k show ?thesis by auto
  qed
  with k c id_take_nth_drop [OF k] show ?thesis
    by simp
qed

lemma evict_surplus_step:
  assumes f: "first_from closable ws 0 = Some k" and a: "win_classification (ws ! k) \<noteq> avoid"
  shows "evict_surplus avoid (Suc n) ws = evict_surplus avoid n (take k ws @ drop (Suc k) ws)"
proof -
  from first_closable_split [OF f] have ws: "ws = take k ws @ ws ! k # drop (Suc k) ws"
    and c: "closable (ws ! k)" and p: "\<forall>x \<in> set (take k ws). \<not> closable x"
    by simp_all
  have "evict_surplus avoid (Suc n) (take k ws @ ws ! k # drop (Suc k) ws) =
      take k ws @ evict_surplus avoid (Suc n) (ws ! k # drop (Suc k) ws)"
    using p by (rule evict_surplus_prefix)
  also have "\<dots> = take k ws @ evict_surplus avoid n (drop (Suc k) ws)"
    using c a by simp
  also have "\<dots> = evict_surplus avoid n (take k ws @ drop (Suc k) ws)"
    using p by (rule evict_surplus_prefix [symmetric])
  finally show ?thesis
    using ws by simp
qed

lemma evict_surplus_avoided:
  assumes f: "first_from closable ws 0 = Some k" and a: "win_classification (ws ! k) = avoid"
  shows "evict_surplus avoid n ws = ws"
proof (cases n)
  case 0
  then show ?thesis by simp
next
  case (Suc m)
  from first_closable_split [OF f] have ws: "ws = take k ws @ ws ! k # drop (Suc k) ws"
    and c: "closable (ws ! k)" and p: "\<forall>x \<in> set (take k ws). \<not> closable x"
    by simp_all
  have "evict_surplus avoid (Suc m) (take k ws @ ws ! k # drop (Suc k) ws) =
      take k ws @ evict_surplus avoid (Suc m) (ws ! k # drop (Suc k) ws)"
    using p by (rule evict_surplus_prefix)
  also have "\<dots> = take k ws @ ws ! k # drop (Suc k) ws"
    using c a by simp
  finally show ?thesis
    using ws Suc by simp
qed

lemma first_closable_exists:
  assumes "0 < length (filter closable ws)"
  shows "\<exists>k. first_from closable ws 0 = Some k"
proof (cases "first_from closable ws 0")
  case None
  then have "\<forall>j < length ws. \<not> closable (ws ! j)"
    by (simp add: first_from_None_iff)
  then have "filter closable ws = []"
    by (auto simp: filter_empty_conv in_set_conv_nth)
  with assms show ?thesis by simp
next
  case (Some k)
  then show ?thesis by simp
qed

lemma length_filter_remove:
  assumes "k < length ws" "P (ws ! k)"
  shows "Suc (length (filter P (take k ws @ drop (Suc k) ws))) = length (filter P ws)"
proof -
  have "ws = take k ws @ ws ! k # drop (Suc k) ws"
    using assms(1) by (rule id_take_nth_drop)
  then have "filter P ws = filter P (take k ws @ ws ! k # drop (Suc k) ws)"
    by simp
  with assms(2) show ?thesis by simp
qed

lemma window_close_surplus_loop_evicts:
  assumes k: "close_keeps_list E"
  shows "distinct (map window_key (window_list s)) \<Longrightarrow>
     n \<le> length (filter closable (window_list s)) \<Longrightarrow>
     \<exists>s'. window_close_surplus_loop E (Some avoid) n s = Some s' \<and>
        window_list s' = evict_surplus avoid n (window_list s)"
proof (induction n arbitrary: s)
  case 0
  then show ?case by simp
next
  case (Suc n)
  let ?ws = "window_list s"
  from Suc.prems(2) have "0 < length (filter closable ?ws)"
    by linarith
  from first_closable_exists [OF this] obtain w where ff: "first_from closable ?ws 0 = Some w"
    by blast
  from first_closable_split [OF ff] have w: "w < length ?ws" and c: "closable (?ws ! w)"
    by simp_all
  have rd: "slot_read s w = ?ws ! w"
    using w by (rule slot_read_live)
  show ?case
  proof (cases "win_classification (?ws ! w) = avoid")
    case True
    from Suc.prems(2) have n: "n \<le> length (filter closable ?ws)"
      by simp
    from Suc.IH [OF Suc.prems(1) n] obtain s' where
      r: "window_close_surplus_loop E (Some avoid) n s = Some s'"
      and l: "window_list s' = evict_surplus avoid n ?ws"
      by blast
    have "window_close_surplus_loop E (Some avoid) (Suc n) s = Some s'"
      using True ff rd r by simp
    moreover have "window_list s' = evict_surplus avoid (Suc n) ?ws"
      using l evict_surplus_avoided [OF ff True] by simp
    ultimately show ?thesis by blast
  next
    case False
    from window_close_removes [OF k Suc.prems(1) w] obtain s1 where
      cl: "window_close E (Some w) s = Some s1"
      and l1: "window_list s1 = take w ?ws @ drop (Suc w) ?ws"
      by blast
    have d1: "distinct (map window_key (window_list s1))"
      unfolding l1 using Suc.prems(1) by (rule distinct_keys_remove)
    have n1: "n \<le> length (filter closable (window_list s1))"
      using Suc.prems(2) length_filter_remove [where P = closable, OF w c] by (simp add: l1)
    from Suc.IH [OF d1 n1] obtain s' where
      r: "window_close_surplus_loop E (Some avoid) n s1 = Some s'"
      and l: "window_list s' = evict_surplus avoid n (take w ?ws @ drop (Suc w) ?ws)"
      unfolding l1 by blast
    have "window_close_surplus_loop E (Some avoid) (Suc n) s = Some s'"
      using False ff rd cl r by simp
    moreover have "window_list s' = evict_surplus avoid (Suc n) ?ws"
      using l evict_surplus_step [OF ff False] by simp
    ultimately show ?thesis by blast
  qed
qed

lemma evict_surplus_keeps_protected:
  "filter (\<lambda>x. \<not> closable x) (evict_surplus avoid n ws) = filter (\<lambda>x. \<not> closable x) ws"
  by (induction avoid n ws rule: evict_surplus.induct) simp_all

lemma evict_surplus_length:
  "\<forall>x \<in> set ws. closable x \<longrightarrow> win_classification x \<noteq> avoid \<Longrightarrow>
     n \<le> length (filter closable ws) \<Longrightarrow>
     length (evict_surplus avoid n ws) + n = length ws"
  by (induction avoid n ws rule: evict_surplus.induct) (auto split: if_splits)

text \<open>
  C3, amended. With close handlers that leave the list alone and distinct window keys:
  \<^verbatim>\<open>window_set_window_limit\<close> closes nothing when the clamped value is not below the old
  limit. When it is, the number of rounds is the number of open windows (counted up to
  \<^verbatim>\<open>WINDOW_LIMIT_MAX\<close>) minus \<^verbatim>\<open>WINDOW_LIMIT_RESERVED\<close> minus the new limit; provided that at
  least that many windows without a protection flag are open, the list that is left is the
  one \<open>evict_surplus\<close> describes: each round evicts the first unprotected window in list
  order, and from the round on that meets an unprotected window of class \<^verbatim>\<open>WC_OPTIONS\<close>
  nothing more is evicted. The protected windows all stay, and when no unprotected window is
  of class \<^verbatim>\<open>WC_OPTIONS\<close> the list is shorter by exactly the number of rounds.
\<close>

theorem window_set_window_limit_evicts_surplus:
  assumes k: "close_keeps_list E"
    and d: "distinct (map window_key (window_list s))"
    and enough: "nat (window_count E s - WINDOW_LIMIT_RESERVED E -
                      Clamp (WINDOW_LIMIT_MIN E) value (WINDOW_LIMIT_MAX E))
                   \<le> length (filter closable (window_list s))"
  shows "\<exists>s'. window_set_window_limit E value s = Some s' \<and>
     window_list s' =
       (if Clamp (WINDOW_LIMIT_MIN E) value (WINDOW_LIMIT_MAX E) < window_limit s then
          evict_surplus WC_OPTIONS
            (nat (window_count E s - WINDOW_LIMIT_RESERVED E -
                  Clamp (WINDOW_LIMIT_MIN E) value (WINDOW_LIMIT_MAX E)))
            (window_list s)
        else window_list s) \<and>
     filter (\<lambda>x. \<not> closable x) (window_list s') =
       filter (\<lambda>x. \<not> closable x) (window_list s) \<and>
     (Clamp (WINDOW_LIMIT_MIN E) value (WINDOW_LIMIT_MAX E) < window_limit s \<longrightarrow>
      (\<forall>x \<in> set (window_list s). closable x \<longrightarrow> win_classification x \<noteq> WC_OPTIONS) \<longrightarrow>
        length (window_list s') +
          nat (window_count E s - WINDOW_LIMIT_RESERVED E -
               Clamp (WINDOW_LIMIT_MIN E) value (WINDOW_LIMIT_MAX E)) =
        length (window_list s))"
proof (cases "Clamp (WINDOW_LIMIT_MIN E) value (WINDOW_LIMIT_MAX E) < window_limit s")
  case False
  then show ?thesis
    by (simp add: window_set_window_limit_def Let_def)
next
  case True
  define val where "val = Clamp (WINDOW_LIMIT_MIN E) value (WINDOW_LIMIT_MAX E)"
  define s1 where "s1 = s\<lparr>window_limit := val\<rparr>"
  have cnt: "window_count E s1 = window_count E s"
    by (simp add: window_count_def s1_def)
  define n where "n = nat (window_count E s - WINDOW_LIMIT_RESERVED E - val)"
  have n: "n \<le> length (filter closable (window_list s1))"
    using enough by (simp add: n_def s1_def val_def)
  have d1: "distinct (map window_key (window_list s1))"
    using d by (simp add: s1_def)
  from window_close_surplus_loop_evicts [OF k d1 n, of WC_OPTIONS] obtain s' where
    r: "window_close_surplus_loop E (Some WC_OPTIONS) n s1 = Some s'"
    and l: "window_list s' = evict_surplus WC_OPTIONS n (window_list s)"
    by (auto simp: s1_def)
  have run: "window_set_window_limit E value s = Some s'"
    using True r cnt
    by (simp add: window_set_window_limit_def window_close_surplus_def Let_def
          val_def [symmetric] s1_def [symmetric] n_def)
  have keep: "filter (\<lambda>x. \<not> closable x) (window_list s') =
      filter (\<lambda>x. \<not> closable x) (window_list s)"
    unfolding l by (rule evict_surplus_keeps_protected)
  have len: "length (window_list s') + n = length (window_list s)"
    if "\<forall>x \<in> set (window_list s). closable x \<longrightarrow> win_classification x \<noteq> WC_OPTIONS"
    unfolding l using that n by (intro evict_surplus_length) (simp_all add: s1_def)
  from run l keep len True show ?thesis
    by (simp add: val_def [symmetric] n_def [symmetric])
qed

text \<open>
  C3 as stated fails: with two reserved slots, three unprotected windows and the limit
  lowered to 1, the surplus is 3 - 2 - 1 = 0 and all three windows stay; this is so whether
  the capacity 4 is read as \<^verbatim>\<open>WINDOW_LIMIT_MAX\<close> or as \<^verbatim>\<open>WINDOW_LIMIT_MAX\<close> plus the reserved
  slots.
\<close>

theorem window_set_window_limit_counterexample:
  "(\<exists>s'. window_set_window_limit (reserved_env 4) 1 (open_windows 3 4) = Some s' \<and>
         length (window_list (open_windows 3 4)) = 3 \<and> length (window_list s') = 3) \<and>
   (\<exists>s'. window_set_window_limit (reserved_env 2) 1 (open_windows 3 2) = Some s' \<and>
         length (window_list (open_windows 3 2)) = 3 \<and> length (window_list s') = 3)"
  by (simp add: window_set_window_limit_def window_close_surplus_def window_count_def
        reserved_env_def plain_env_def open_windows_def plain_state_def Clamp_def Let_def)

theorem window_set_window_limit_evicts_surplus_witness:
  "close_keeps_list (reserved_env 8) \<and>
   distinct (map window_key (window_list framed_windows)) \<and>
   nat (window_count (reserved_env 8) framed_windows - WINDOW_LIMIT_RESERVED (reserved_env 8) -
        Clamp (WINDOW_LIMIT_MIN (reserved_env 8)) 1 (WINDOW_LIMIT_MAX (reserved_env 8)))
     \<le> length (filter closable (window_list framed_windows)) \<and>
   length (window_list framed_windows) = 5 \<and>
   (\<exists>s'. window_set_window_limit (reserved_env 8) 1 framed_windows = Some s' \<and>
      window_list s' = [main_window, plain_window (WC_OTHER 7) 2 20 40 100 100, toolbar_window] \<and>
      length (window_list s') + 2 = length (window_list framed_windows))"
proof -
  let ?E = "reserved_env 8" and ?s = "framed_windows"
  have ws: "window_list ?s =
      [main_window, plain_window (WC_OTHER 7) 0 0 40 100 100,
       plain_window (WC_OTHER 7) 1 10 40 100 100, plain_window (WC_OTHER 7) 2 20 40 100 100,
       toolbar_window]"
    by (simp add: framed_windows_def plain_state_def)
  have cm: "\<not> closable main_window" and ct: "\<not> closable toolbar_window"
    and cp: "closable (plain_window (WC_OTHER 7) i x y wd ht)" for i x y wd ht
    by (simp_all add: closable_def main_window_def toolbar_window_def plain_window_def)
  have h1: "close_keeps_list ?E"
    by (simp add: close_keeps_list_def reserved_env_def plain_env_def no_handlers_def)
  have h2: "distinct (map window_key (window_list ?s))"
    by (simp add: ws window_key_def main_window_def toolbar_window_def plain_window_def)
  have cl: "Clamp (WINDOW_LIMIT_MIN ?E) 1 (WINDOW_LIMIT_MAX ?E) = 1"
    by (simp add: Clamp_def reserved_env_def plain_env_def)
  have cnt: "window_count ?E ?s = 5"
    by (simp add: window_count_def ws) (simp add: reserved_env_def plain_env_def)
  have res: "WINDOW_LIMIT_RESERVED ?E = 2" and lim: "window_limit ?s = 8"
    by (simp_all add: reserved_env_def plain_env_def framed_windows_def)
  have h3: "nat (window_count ?E ?s - WINDOW_LIMIT_RESERVED ?E -
        Clamp (WINDOW_LIMIT_MIN ?E) 1 (WINDOW_LIMIT_MAX ?E))
     \<le> length (filter closable (window_list ?s))"
    unfolding cl cnt res by (simp add: ws cm ct cp)
  have h4: "length (window_list ?s) = 5"
    by (simp add: ws)
  from window_set_window_limit_evicts_surplus [OF h1 h2 h3]
  obtain s' where run: "window_set_window_limit ?E 1 ?s = Some s'"
    and l: "window_list s' =
       (if Clamp (WINDOW_LIMIT_MIN ?E) 1 (WINDOW_LIMIT_MAX ?E) < window_limit ?s then
          evict_surplus WC_OPTIONS
            (nat (window_count ?E ?s - WINDOW_LIMIT_RESERVED ?E -
                  Clamp (WINDOW_LIMIT_MIN ?E) 1 (WINDOW_LIMIT_MAX ?E)))
            (window_list ?s)
        else window_list ?s)"
    by blast
  have two: "nat (5 - 2 - 1) = Suc (Suc 0)"
    by simp
  have l': "window_list s' =
      [main_window, plain_window (WC_OTHER 7) 2 20 40 100 100, toolbar_window]"
    using l unfolding cl cnt res lim two
    by (simp add: ws cm ct cp) (simp add: plain_window_def)
  then have "length (window_list s') + 2 = length (window_list ?s)"
    by (simp add: ws)
  with h1 h2 h3 h4 run l' show ?thesis
    by blast
qed

text \<open>
  Where the rounds outnumber the unprotected windows, a round finds no window to evict and
  its pointer stops at the first spare slot. When that slot holds what an earlier close left
  there, here a copy of the toolbar, \<^verbatim>\<open>window_close\<close> looks up the copy's classification and
  number and closes the open window that has them, although it is protected.
\<close>

lemma window_close_surplus_past_the_list:
  "\<not> closable main_window \<and> \<not> closable toolbar_window \<and>
   window_close_surplus_loop plain_env (Some WC_OPTIONS) 1
     ((plain_state [main_window, toolbar_window])\<lparr>spare_slots := (\<lambda>k. toolbar_window)\<rparr>) =
   Some ((plain_state [main_window])
           \<lparr>spare_slots := (\<lambda>k. toolbar_window), dirty_blocks := [(0, 0, 640, 28)]\<rparr>)"
proof -
  let ?s = "(plain_state [main_window, toolbar_window])\<lparr>spare_slots := (\<lambda>k. toolbar_window)\<rparr>"
  have cm: "\<not> closable main_window" and ct: "\<not> closable toolbar_window"
    by (simp_all add: closable_def main_window_def toolbar_window_def plain_window_def)
  have ff: "first_from closable (window_list ?s) 0 = None"
    by (simp add: first_from_None_iff plain_state_def cm ct less_Suc_eq)
  have rd: "slot_read ?s (Suc (Suc 0)) = toolbar_window"
    by (simp add: slot_read_def plain_state_def)
  have s1: "?s = close_handler_result plain_env (Suc (Suc 0)) ?s"
    by (simp add: close_handler_result_def plain_env_def no_handlers_def)
  have f: "window_find_by_number (win_classification (slot_read ?s (Suc (Suc 0))))
      (win_number (slot_read ?s (Suc (Suc 0)))) ?s = Some (Suc 0)"
    unfolding rd
    by (simp add: window_find_by_number_def first_from.simps plain_state_def main_window_def
        toolbar_window_def plain_window_def)
  have cl: "window_close plain_env (Some (Suc (Suc 0))) ?s =
      Some ((plain_state [main_window])
           \<lparr>spare_slots := (\<lambda>k. toolbar_window), dirty_blocks := [(0, 0, 640, 28)]\<rparr>)"
    unfolding window_close_found [OF s1 f]
    by (simp add: plain_state_def window_rect_def toolbar_window_def plain_window_def fun_eq_iff)
  have "win_classification toolbar_window \<noteq> WC_OPTIONS"
    by (simp add: toolbar_window_def plain_window_def)
  then have "window_close_surplus_loop plain_env (Some WC_OPTIONS) 1 ?s =
      Some ((plain_state [main_window])
           \<lparr>spare_slots := (\<lambda>k. toolbar_window), dirty_blocks := [(0, 0, 640, 28)]\<rparr>)"
    using ff rd cl by (simp add: plain_state_def)
  with cm ct show ?thesis
    by simp
qed









lemma window_key_detached [simp]: "window_key (x\<lparr>win_viewport := v\<rparr>) = window_key x"
  by (simp add: window_key_def)

lemma sticky_detached [simp]: "sticky (x\<lparr>win_viewport := v\<rparr>) = sticky x"
  by (simp add: sticky_def)




















end
